theory Spec2Isabelle
  imports Complex_Main
begin

section \<open>Values carried by the hive\<close>

text \<open>
  Payloads, deposited data and the values of \<open>match\<close> and \<open>inject\<close> are typed
  \<open>unknown\<close> in the source; they are JSON values here. A value that may be
  \<open>undefined\<close> is a \<open>json option\<close>, \<open>None\<close> being \<open>undefined\<close>. An object is the
  list of its own enumerable properties in the order \<open>Object.keys\<close> gives them: array
  indices first, ascending, then the other keys in creation order. Numbers are rationals
  (the arithmetic of the source is floating point; nothing below depends on rounding).
  Strings are sequences of 8-bit characters, read as Latin-1.
\<close>

datatype json =
    JNull
  | JBool bool
  | JNum rat
  | JStr string
  | JArr "json list"
  | JObj "(string \<times> json) list"

datatype js_error = TypeError | IOError

text \<open>Truthiness of a value, as tested by \<open>if (x)\<close>, \<open>!x\<close> and \<open>x && y\<close>.\<close>

fun truthy :: "json option \<Rightarrow> bool" where
  "truthy None = False"
| "truthy (Some JNull) = False"
| "truthy (Some (JBool b)) = b"
| "truthy (Some (JNum n)) = (n \<noteq> 0)"
| "truthy (Some (JStr s)) = (s \<noteq> [])"
| "truthy (Some (JArr xs)) = True"
| "truthy (Some (JObj es)) = True"

text \<open>\<open>typeof x === "object"\<close>: objects, arrays and \<open>null\<close>.\<close>

fun typeof_object :: "json option \<Rightarrow> bool" where
  "typeof_object (Some JNull) = True"
| "typeof_object (Some (JArr xs)) = True"
| "typeof_object (Some (JObj es)) = True"
| "typeof_object _ = False"

subsection \<open>Property keys\<close>

definition digits :: string where
  "digits = ''0123456789''"

definition is_digit :: "char \<Rightarrow> bool" where
  "is_digit c = (c \<in> set digits)"

definition digit_char :: "nat \<Rightarrow> char" where
  "digit_char d = digits ! d"

definition digit_value :: "char \<Rightarrow> int" where
  "digit_value c = (case map_of (zip digits [0, 1, 2, 3, 4, 5, 6, 7, 8, 9]) c of Some d \<Rightarrow> d | None \<Rightarrow> 0)"

fun string_of_nat :: "nat \<Rightarrow> string" where
  "string_of_nat n =
     (if n < 10 then [digit_char n] else string_of_nat (n div 10) @ [digit_char (n mod 10)])"

definition int_of_digits :: "string \<Rightarrow> int" where
  "int_of_digits s = foldl (\<lambda>a c. 10 * a + digit_value c) 0 s"

text \<open>
  An array index is a canonical decimal numeral below \<open>2^32 - 1\<close>; such keys are
  enumerated before all others, in ascending numeric order.
\<close>

definition array_index :: "string \<Rightarrow> int option" where
  "array_index k =
     (if k \<noteq> [] \<and> list_all is_digit k \<and> (k = ''0'' \<or> hd k \<noteq> CHR ''0'')
         \<and> int_of_digits k < 4294967295
      then Some (int_of_digits k) else None)"

fun insert_index :: "int \<Rightarrow> string \<Rightarrow> 'v \<Rightarrow> (string \<times> 'v) list \<Rightarrow> (string \<times> 'v) list" where
  "insert_index n k v [] = [(k, v)]"
| "insert_index n k v ((k', v') # es) =
     (case array_index k' of
        Some m \<Rightarrow> if m < n then (k', v') # insert_index n k v es else (k, v) # (k', v') # es
      | None \<Rightarrow> (k, v) # (k', v') # es)"

text \<open>
  Defining or updating the own data property \<open>k\<close> of an object, and \<open>delete obj[k]\<close>, on
  the list of the own properties, whatever the values are.
\<close>

definition obj_set :: "string \<Rightarrow> 'v \<Rightarrow> (string \<times> 'v) list \<Rightarrow> (string \<times> 'v) list" where
  "obj_set k v es =
     (if k \<in> fst ` set es then map (\<lambda>(k', v'). if k' = k then (k', v) else (k', v')) es
      else case array_index k of
             Some n \<Rightarrow> insert_index n k v es
           | None \<Rightarrow> es @ [(k, v)])"

definition obj_delete :: "string \<Rightarrow> (string \<times> 'v) list \<Rightarrow> (string \<times> 'v) list" where
  "obj_delete k es = filter (\<lambda>(k', v'). k' \<noteq> k) es"

text \<open>
  The own enumerable properties of a value, as \<open>Object.keys\<close>, \<open>Object.entries\<close> and
  the spread \<open>{...x}\<close> see them: the entries of an object, the elements of an array
  under their indices, the characters of a string under theirs, and nothing for
  \<open>null\<close>, numbers and booleans.
\<close>

definition indexed :: "json list \<Rightarrow> (string \<times> json) list" where
  "indexed xs = zip (map string_of_nat [0..<length xs]) xs"

fun own_entries :: "json \<Rightarrow> (string \<times> json) list" where
  "own_entries (JObj es) = es"
| "own_entries (JArr xs) = indexed xs"
| "own_entries (JStr s) = indexed (map (\<lambda>c. JStr [c]) s)"
| "own_entries _ = []"

definition object_keys :: "json \<Rightarrow> string list" where
  "object_keys v = map fst (own_entries v)"

text \<open>\<open>{...target, ...v}\<close>: every own property of \<open>v\<close> is defined on the target, in order.\<close>

definition define_all :: "(string \<times> 'v) list \<Rightarrow> (string \<times> 'v) list \<Rightarrow> (string \<times> 'v) list" where
  "define_all entries target = fold (\<lambda>(k, x) r. obj_set k x r) entries target"

definition spread :: "(string \<times> json) list \<Rightarrow> json \<Rightarrow> (string \<times> json) list" where
  "spread target v = define_all (own_entries v) target"

text \<open>
  \<open>payload[key]\<close> as far as it can be identical to a JSON value: an own property, an
  element, or the \<open>length\<close> of an array or string. A member inherited from a prototype
  is a function, never identical to a JSON value, and is read as absent.
\<close>

fun get_prop :: "json \<Rightarrow> string \<Rightarrow> json option" where
  "get_prop (JObj es) key = map_of es key"
| "get_prop (JArr xs) key =
     (case array_index key of
        Some i \<Rightarrow> if i < int (length xs) then Some (xs ! nat i) else None
      | None \<Rightarrow> if key = ''length'' then Some (JNum (of_nat (length xs))) else None)"
| "get_prop (JStr s) key =
     (case array_index key of
        Some i \<Rightarrow> if i < int (length s) then Some (JStr [s ! nat i]) else None
      | None \<Rightarrow> if key = ''length'' then Some (JNum (of_nat (length s))) else None)"
| "get_prop _ key = None"

text \<open>
  \<open>a === b\<close> where \<open>b\<close> is a value read from a stored node: primitives are compared by
  value; an object or array of a stored node is never the same reference as a part of
  the caller's payload.
\<close>

fun strict_eq :: "json option \<Rightarrow> json \<Rightarrow> bool" where
  "strict_eq (Some JNull) JNull = True"
| "strict_eq (Some (JBool a)) (JBool b) = (a = b)"
| "strict_eq (Some (JNum a)) (JNum b) = (a = b)"
| "strict_eq (Some (JStr a)) (JStr b) = (a = b)"
| "strict_eq _ _ = False"

subsection \<open>Objects, prototypes and built-in objects\<close>

text \<open>
  An object made by an object literal or a spread inherits from \<open>Object.prototype\<close>; the
  operator \<open>in\<close>, a read \<open>obj[k]\<close> and an assignment \<open>obj[k] = v\<close> look at the own
  properties first and then along the prototype chain. These are the string-keyed
  members of \<open>Object.prototype\<close>: eleven functions, data properties that can be
  overwritten, and the accessor \<open>__proto__\<close>, which reads and sets the prototype of the
  object it is used on.
\<close>

definition object_prototype_members :: "string list" where
  "object_prototype_members =
    [''constructor'', ''__defineGetter__'', ''__defineSetter__'', ''hasOwnProperty'',
     ''__lookupGetter__'', ''__lookupSetter__'', ''isPrototypeOf'', ''propertyIsEnumerable'',
     ''toString'', ''valueOf'', ''__proto__'', ''toLocaleString'']"

text \<open>
  A built-in object is known by its name. A property value is a JSON value or a built-in
  object; a prototype is \<open>null\<close>, a JSON object or array, or a built-in object.
\<close>

datatype bref = ObjectPrototype | ArrayPrototype | Builtin string

datatype jsval = VJson json | VBuiltin bref

datatype proto = PNull | PJson json | PBuiltin bref

text \<open>
  What a lookup along a prototype chain finds: a data property with its value and
  whether it is writable; the accessor \<open>__proto__\<close>; or an accessor whose getter and
  setter raise (as \<open>caller\<close> and \<open>arguments\<close> of \<open>Function.prototype\<close>).
\<close>

datatype bprop = DataProp jsval bool | ProtoAccessor | Throwing

text \<open>
  The built-in objects other than \<open>Object.prototype\<close> belong to the runtime, not to the
  repository. \<open>rt_lookup b k\<close> is what a lookup of \<open>k\<close> starting at the built-in object
  \<open>b\<close> finds, on \<open>b\<close> or along its prototype chain. \<open>rt_stringify\<close> is what
  \<open>JSON.stringify\<close> followed by \<open>JSON.parse\<close> gives for an object with the given own
  properties and prototype when it holds built-in objects or inherits a \<open>toJSON\<close>.
\<close>

record Runtime =
  rt_lookup :: "bref \<Rightarrow> string \<Rightarrow> bprop option"
  rt_stringify :: "(string \<times> jsval) list \<Rightarrow> proto \<Rightarrow> js_error + json option"

definition object_prototype_prop :: "string \<Rightarrow> bprop option" where
  "object_prototype_prop key =
     (if key = ''__proto__'' then Some ProtoAccessor
      else if key = ''constructor'' then Some (DataProp (VBuiltin (Builtin ''Object'')) True)
      else if key \<in> set object_prototype_members
           then Some (DataProp (VBuiltin (Builtin (''Object.prototype.'' @ key))) True)
      else None)"

text \<open>The property \<open>key\<close> as inherited through the prototype.\<close>

fun inherited :: "Runtime \<Rightarrow> proto \<Rightarrow> string \<Rightarrow> bprop option" where
  "inherited rt PNull key = None"
| "inherited rt (PBuiltin ObjectPrototype) key = object_prototype_prop key"
| "inherited rt (PBuiltin ArrayPrototype) key = rt_lookup rt ArrayPrototype key"
| "inherited rt (PBuiltin (Builtin n)) key = rt_lookup rt (Builtin n) key"
| "inherited rt (PJson (JObj es)) key =
     (case map_of es key of
        Some v \<Rightarrow> Some (DataProp (VJson v) True)
      | None \<Rightarrow> object_prototype_prop key)"
| "inherited rt (PJson (JArr xs)) key =
     (case get_prop (JArr xs) key of
        Some v \<Rightarrow> Some (DataProp (VJson v) True)
      | None \<Rightarrow> rt_lookup rt ArrayPrototype key)"
| "inherited rt (PJson _) key = None"

text \<open>The prototype as the getter of \<open>__proto__\<close> returns it, and a value as a prototype.\<close>

fun proto_value :: "proto \<Rightarrow> jsval" where
  "proto_value PNull = VJson JNull"
| "proto_value (PJson j) = VJson j"
| "proto_value (PBuiltin b) = VBuiltin b"

fun as_proto :: "jsval \<Rightarrow> proto option" where
  "as_proto (VJson JNull) = Some PNull"
| "as_proto (VJson (JObj es)) = Some (PJson (JObj es))"
| "as_proto (VJson (JArr xs)) = Some (PJson (JArr xs))"
| "as_proto (VJson _) = None"
| "as_proto (VBuiltin b) = Some (PBuiltin b)"

text \<open>
  \<open>key in obj\<close> together with \<open>obj[key]\<close>: \<open>None\<close> when \<open>key in obj\<close> is false, else the
  value read, or the error of a getter that raises.
\<close>

definition lookup_property ::
  "Runtime \<Rightarrow> (string \<times> jsval) list \<times> proto \<Rightarrow> string \<Rightarrow> (js_error + jsval) option" where
  "lookup_property rt obj key =
     (case map_of (fst obj) key of
        Some v \<Rightarrow> Some (Inr v)
      | None \<Rightarrow>
          (case inherited rt (snd obj) key of
             None \<Rightarrow> None
           | Some (DataProp v w) \<Rightarrow> Some (Inr v)
           | Some ProtoAccessor \<Rightarrow> Some (Inr (proto_value (snd obj)))
           | Some Throwing \<Rightarrow> Some (Inl TypeError)))"

text \<open>
  \<open>obj[key] = v\<close> in strict code (the source is a module). An own property is updated.
  Otherwise the property found along the prototype chain decides: none, or a writable
  data property, and the own property is defined; a read-only data property or a raising
  setter, and a \<open>TypeError\<close> is raised; the accessor \<open>__proto__\<close>, and the prototype of
  the object becomes \<open>v\<close> when \<open>v\<close> is an object or \<open>null\<close>, and nothing happens
  otherwise.
\<close>

definition set_property ::
  "Runtime \<Rightarrow> (string \<times> jsval) list \<times> proto \<Rightarrow> string \<Rightarrow> jsval \<Rightarrow>
   js_error + (string \<times> jsval) list \<times> proto" where
  "set_property rt obj key v =
     (if key \<in> fst ` set (fst obj) then Inr (obj_set key v (fst obj), snd obj)
      else case inherited rt (snd obj) key of
             None \<Rightarrow> Inr (obj_set key v (fst obj), snd obj)
           | Some (DataProp old w) \<Rightarrow>
               if w then Inr (obj_set key v (fst obj), snd obj) else Inl TypeError
           | Some ProtoAccessor \<Rightarrow>
               (case as_proto v of
                  Some p \<Rightarrow> Inr (fst obj, p)
                | None \<Rightarrow> Inr obj)
           | Some Throwing \<Rightarrow> Inl TypeError)"

definition as_values :: "(string \<times> json) list \<Rightarrow> (string \<times> jsval) list" where
  "as_values es = map (\<lambda>(k, v). (k, VJson v)) es"

text \<open>
  A payload that leaves the engine: a JSON value passed on as it came, or an object
  built by a transform, with its own properties and its prototype.
\<close>

datatype outval = Passed json | Built "(string \<times> jsval) list" proto

subsection \<open>Array slices\<close>

text \<open>\<open>xs.slice(start, end)\<close> with integer arguments; a negative one counts from the end.\<close>

definition slice_bound :: "int \<Rightarrow> nat \<Rightarrow> nat" where
  "slice_bound i len = (if i < 0 then nat (max (int len + i) 0) else min (nat i) len)"

definition js_slice :: "int \<Rightarrow> int \<Rightarrow> 'a list \<Rightarrow> 'a list" where
  "js_slice start fin xs =
     (let from = slice_bound start (length xs); to = slice_bound fin (length xs)
      in take (to - from) (drop from xs))"

definition js_slice_from :: "int \<Rightarrow> 'a list \<Rightarrow> 'a list" where
  "js_slice_from start xs = drop (slice_bound start (length xs)) xs"

section \<open>Data model (core/types.ts)\<close>

datatype HexType = Data | Tool | Gateway | Junction

record HexContents =
  contents_data :: "json option"
  contents_refs :: "string list option"
  contents_tools :: "json list option"

record EdgeCondition =
  cond_intent :: "string option"
  cond_hasData :: "string list option"
  cond_lacks :: "string list option"
  cond_match :: "(string \<times> json) list option"
  cond_always :: "bool option"

record EdgeTransform =
  tr_pick :: "string list option"
  tr_omit :: "string list option"
  tr_inject :: "(string \<times> json) list option"
  tr_rename :: "(string \<times> string) list option"

record Edge =
  edge_id :: string
  edge_to :: string
  edge_when :: EdgeCondition
  edge_transform :: "EdgeTransform option"
  edge_priority :: rat
  edge_description :: string

record Hex =
  hex_id :: string
  hex_name :: string
  hex_type :: HexType
  hex_contents :: HexContents
  entryHints :: "string list"
  hex_edges :: "Edge list"
  hex_tags :: "string list"
  hex_description :: "string option"
  hex_created :: string
  hex_updated :: string

record AgentContext =
  ctx_intent :: "string option"
  ctx_payload :: "json option"
  ctx_visited :: "string list option"
  ctx_origin :: "string option"
  ctx_depth :: "nat option"

record QueryResult =
  qr_hex :: Hex
  score :: rat
  matchedHints :: "string list"

record TraversalResult =
  success :: bool
  destination :: string
  res_payload :: "outval option"
  external :: "bool option"
  error :: "string option"

datatype Action = Enter | Exit | Deposit | Query

record JourneyStep =
  step_hexId :: string
  step_action :: Action
  step_timestamp :: string
  step_payload :: "outval option"
  step_edgeId :: "string option"

datatype JourneyStatus = Active | Completed | Failed

record Journey =
  journey_id :: string
  journey_agentId :: string
  journey_started :: string
  journey_ended :: "string option"
  journey_steps :: "JourneyStep list"
  journey_status :: JourneyStatus

section \<open>Lexical matcher\<close>

definition upper_letters :: string where
  "upper_letters = ''ABCDEFGHIJKLMNOPQRSTUVWXYZ''"

definition lower_letters :: string where
  "lower_letters = ''abcdefghijklmnopqrstuvwxyz''"

text \<open>
  \<open>toLowerCase\<close> on the letters \<open>A\<close> to \<open>Z\<close>. It also maps the accented capitals of
  Latin-1 to their small forms; both forms are outside \<open>[a-z0-9\s]\<close> and outside every
  token, so they are left as they are.
\<close>

definition toLowerCase :: "string \<Rightarrow> string" where
  "toLowerCase s =
     map (\<lambda>c. case map_of (zip upper_letters lower_letters) c of Some l \<Rightarrow> l | None \<Rightarrow> c) s"

definition is_lower_alnum :: "char \<Rightarrow> bool" where
  "is_lower_alnum c = (c \<in> set lower_letters \<or> c \<in> set digits)"

text \<open>The class \<open>\s\<close>: tab, line feed, vertical tab, form feed, carriage return, space, no-break space.\<close>

definition is_space :: "char \<Rightarrow> bool" where
  "is_space c = (c \<in> set [CHR 0x09, CHR 0x0A, CHR 0x0B, CHR 0x0C, CHR 0x0D, CHR 0x20, CHR 0xA0])"

text \<open>
  \<open>s.split(/\s+/)\<close>: the pieces between maximal runs of white space; a leading or
  trailing run leaves an empty piece. \<open>cur\<close> is the piece being read, \<open>insep\<close> tells
  whether the previous character was white space.
\<close>

fun split_ws :: "string \<Rightarrow> bool \<Rightarrow> string \<Rightarrow> string list" where
  "split_ws cur insep [] = [cur]"
| "split_ws cur insep (c # cs) =
     (if is_space c then (if insep then split_ws cur True cs else cur # split_ws [] True cs)
      else split_ws (cur @ [c]) False cs)"

definition tokenize :: "string \<Rightarrow> string list" where
  "tokenize text =
     filter (\<lambda>w. length w > 2)
       (split_ws [] False (filter (\<lambda>c. is_lower_alnum c \<or> is_space c) (toLowerCase text)))"

definition CONCEPT_MAP :: "(string \<times> string list) list" where
  "CONCEPT_MAP =
    [(''button'', [''interactive'', ''form'', ''click'', ''input'', ''ui'', ''element'']),
     (''deploy'', [''ship'', ''ops'', ''launch'', ''release'', ''production'', ''ci'', ''cd'']),
     (''database'', [''schema'', ''data'', ''table'', ''model'', ''prisma'', ''sql'']),
     (''style'', [''css'', ''design'', ''theme'', ''color'', ''token'', ''tailwind'']),
     (''auth'', [''login'', ''signup'', ''session'', ''permission'', ''security'', ''authentication'']),
     (''test'', [''qa'', ''quality'', ''check'', ''audit'', ''verify'', ''testing'']),
     (''api'', [''backend'', ''server'', ''endpoint'', ''route'', ''action'', ''rest'']),
     (''layout'', [''spacing'', ''grid'', ''responsive'', ''breakpoint'', ''flex'', ''gap'']),
     (''text'', [''typography'', ''font'', ''heading'', ''copy'', ''writing'']),
     (''image'', [''performance'', ''optimization'', ''loading'', ''asset'', ''media'']),
     (''error'', [''handling'', ''validation'', ''message'', ''boundary'', ''catch'']),
     (''form'', [''input'', ''validation'', ''field'', ''submit'', ''interactive'']),
     (''component'', [''ui'', ''element'', ''widget'', ''block'', ''module'']),
     (''animation'', [''motion'', ''transition'', ''hover'', ''easing'', ''duration'']),
     (''color'', [''theme'', ''palette'', ''token'', ''dark'', ''light'', ''mode'']),
     (''accessibility'', [''a11y'', ''wcag'', ''aria'', ''screen'', ''reader'', ''keyboard'', ''focus'']),
     (''seo'', [''search'', ''meta'', ''og'', ''social'', ''crawl'', ''sitemap'']),
     (''setup'', [''scaffold'', ''init'', ''initialize'', ''new'', ''project'', ''start'']),
     (''code'', [''typescript'', ''react'', ''standards'', ''patterns'', ''naming'']),
     (''copy'', [''writing'', ''ux'', ''microcopy'', ''label'', ''message'', ''voice''])]"

text \<open>
  \<open>CONCEPT_MAP\<close> is an object literal, so \<open>CONCEPT_MAP[word]\<close> also finds the members it
  inherits from \<open>Object.prototype\<close>. Each of them is truthy and none is iterable: the
  \<open>for ... of\<close> over it raises a \<open>TypeError\<close>.
\<close>

text \<open>A \<open>Set\<close> of strings in insertion order.\<close>

definition set_add :: "string \<Rightarrow> string list \<Rightarrow> string list" where
  "set_add x s = (if x \<in> set s then s else s @ [x])"

definition set_add_all :: "string list \<Rightarrow> string list \<Rightarrow> string list" where
  "set_add_all xs s = fold set_add xs s"

text \<open>The inner loop over \<open>Object.entries(CONCEPT_MAP)\<close>.\<close>

fun expand_values :: "string \<Rightarrow> (string \<times> string list) list \<Rightarrow> string list \<Rightarrow> string list" where
  "expand_values word [] expanded = expanded"
| "expand_values word ((key, synonyms) # rest) expanded =
     expand_values word rest
       (if word \<in> set synonyms then set_add_all synonyms (set_add key expanded) else expanded)"

fun expand_loop :: "string list \<Rightarrow> string list \<Rightarrow> js_error + string list" where
  "expand_loop [] expanded = Inr expanded"
| "expand_loop (word # rest) expanded =
     (case map_of CONCEPT_MAP word of
        Some synonyms \<Rightarrow>
          expand_loop rest (expand_values word CONCEPT_MAP (set_add_all synonyms expanded))
      | None \<Rightarrow>
          if word \<in> set object_prototype_members then Inl TypeError
          else expand_loop rest (expand_values word CONCEPT_MAP expanded))"

definition expandWithSynonyms :: "string list \<Rightarrow> js_error + string list" where
  "expandWithSynonyms words = expand_loop words (set_add_all words [])"

definition wordOverlap :: "string list \<Rightarrow> string list \<Rightarrow> nat" where
  "wordOverlap a b = length (filter (\<lambda>w. w \<in> set b) a)"

section \<open>Node store and engine state\<close>

text \<open>
  The node store is the directory of node files in listing order, each under the id its
  file is named after; only records that pass the schema are seen by the engine, so only
  those are kept here. The durable journey log is the list of the entries its lines
  hold, \<open>None\<close> while the file does not exist. Store reads and writes succeed; the append
  to the journey log succeeds or fails as \<open>env_append_ok\<close> says. \<open>env_now\<close> is the clock:
  every \<open>new Date()\<close> of one call reads it. \<open>env_runtime\<close> is the table of the built-in
  objects. An entry of the durable log is a step as its line reads back: its payload
  is a JSON value.
\<close>

record LogEntry =
  entry_step :: JourneyStep
  entry_journeyId :: string

record Hive =
  storage :: "(string \<times> Hex) list"
  journeys :: "(string \<times> Journey) list"
  journeyLog :: "LogEntry list option"

record Env =
  env_now :: string
  env_append_ok :: bool
  env_runtime :: Runtime

definition getHex :: "Hive \<Rightarrow> string \<Rightarrow> Hex option" where
  "getHex st hexId = map_of (storage st) hexId"

definition getAllHexes :: "Hive \<Rightarrow> Hex list" where
  "getAllHexes st = map snd (storage st)"

definition saveHex :: "Hex \<Rightarrow> Hive \<Rightarrow> Hive" where
  "saveHex hex st =
     st\<lparr>storage :=
          (if hex_id hex \<in> fst ` set (storage st)
           then map (\<lambda>(k, h). if k = hex_id hex then (k, hex) else (k, h)) (storage st)
           else storage st @ [(hex_id hex, hex)])\<rparr>"

section \<open>Query engine\<close>

text \<open>The loop over the entry hints of one node: matched hints and score so far.\<close>

fun hint_loop :: "string list \<Rightarrow> string list \<Rightarrow> string list \<times> rat \<Rightarrow> js_error + string list \<times> rat" where
  "hint_loop expandedIntent [] acc = Inr acc"
| "hint_loop expandedIntent (hint # hints) (matched, sc) =
     (case expandWithSynonyms (tokenize hint) of
        Inl e \<Rightarrow> Inl e
      | Inr expandedHint \<Rightarrow>
          (let overlap = wordOverlap expandedIntent expandedHint
           in if overlap > 0
              then hint_loop expandedIntent hints (matched @ [hint], sc + of_nat overlap)
              else hint_loop expandedIntent hints (matched, sc)))"

definition tag_loop :: "string list \<Rightarrow> string list \<Rightarrow> rat \<Rightarrow> rat" where
  "tag_loop expandedIntent tags sc =
     fold (\<lambda>tag s. if toLowerCase tag \<in> set expandedIntent then s + 1 / 2 else s) tags sc"

text \<open>The description clause: the score after it, from the score before it.\<close>

definition description_score :: "string list \<Rightarrow> Hex \<Rightarrow> rat \<Rightarrow> js_error + rat" where
  "description_score expandedIntent hex sc =
     (case hex_description hex of
        None \<Rightarrow> Inr sc
      | Some d \<Rightarrow>
          if d = [] then Inr sc
          else (case expandWithSynonyms (tokenize d) of
                  Inl e \<Rightarrow> Inl e
                | Inr expandedDesc \<Rightarrow>
                    Inr (sc + of_nat (wordOverlap expandedIntent expandedDesc) * (3 / 10))))"

text \<open>
  The body of the loop over the nodes: the result pushed for one node, \<open>None\<close> when the
  node scores nothing.
\<close>

definition score_hex :: "string list \<Rightarrow> Hex \<Rightarrow> js_error + QueryResult option" where
  "score_hex expandedIntent hex =
     (case hint_loop expandedIntent (entryHints hex) ([], 0) of
        Inl e \<Rightarrow> Inl e
      | Inr (matched, s1) \<Rightarrow>
          (case expandWithSynonyms (tokenize (hex_name hex)) of
             Inl e \<Rightarrow> Inl e
           | Inr expandedName \<Rightarrow>
               (case description_score expandedIntent hex
                       (s1 + of_nat (wordOverlap expandedIntent expandedName) * (1 / 2)) of
                  Inl e \<Rightarrow> Inl e
                | Inr s3 \<Rightarrow>
                    (let sc = tag_loop expandedIntent (hex_tags hex) s3
                     in Inr (if sc > 0
                             then Some \<lparr>qr_hex = hex, score = sc, matchedHints = matched\<rparr>
                             else None)))))"

fun query_loop :: "string list \<Rightarrow> Hex list \<Rightarrow> QueryResult list \<Rightarrow> js_error + QueryResult list" where
  "query_loop expandedIntent [] results = Inr results"
| "query_loop expandedIntent (hex # hexes) results =
     (case score_hex expandedIntent hex of
        Inl e \<Rightarrow> Inl e
      | Inr None \<Rightarrow> query_loop expandedIntent hexes results
      | Inr (Some r) \<Rightarrow> query_loop expandedIntent hexes (results @ [r]))"

text \<open>
  \<open>limit\<close> is an optional number, 5 when omitted. \<open>Array.prototype.sort\<close> is stable; with
  the comparator \<open>b.score - a.score\<close> it is the stable sort on the negated score.
\<close>

definition query :: "Hive \<Rightarrow> string \<Rightarrow> int option \<Rightarrow> js_error + QueryResult list" where
  "query st intent limit_opt =
     (let limit = (case limit_opt of None \<Rightarrow> 5 | Some l \<Rightarrow> l);
          hexes = getAllHexes st
      in case expandWithSynonyms (tokenize intent) of
           Inl e \<Rightarrow> Inl e
         | Inr expandedIntent \<Rightarrow>
             (case query_loop expandedIntent hexes [] of
                Inl e \<Rightarrow> Inl e
              | Inr results \<Rightarrow> Inr (js_slice 0 limit (sort_key (\<lambda>r. - score r) results))))"

section \<open>Condition evaluator\<close>

definition nonempty :: "string option \<Rightarrow> bool" where
  "nonempty s = (case s of None \<Rightarrow> False | Some t \<Rightarrow> t \<noteq> [])"

text \<open>The intent clause: \<open>Inr False\<close> when it makes the guard fail.\<close>

definition intent_clause :: "EdgeCondition \<Rightarrow> AgentContext \<Rightarrow> js_error + bool" where
  "intent_clause condition context =
     (if nonempty (cond_intent condition) \<and> nonempty (ctx_intent context)
      then (case expandWithSynonyms (tokenize (the (cond_intent condition))) of
              Inl e \<Rightarrow> Inl e
            | Inr expandedCondition \<Rightarrow>
                (case expandWithSynonyms (tokenize (the (ctx_intent context))) of
                   Inl e \<Rightarrow> Inl e
                 | Inr expandedIntent \<Rightarrow> Inr (wordOverlap expandedCondition expandedIntent \<noteq> 0)))
      else Inr True)"

fun match_loop :: "json \<Rightarrow> (string \<times> json) list \<Rightarrow> bool" where
  "match_loop payload [] = True"
| "match_loop payload ((key, v) # rest) =
     (if \<not> strict_eq (get_prop payload key) v then False else match_loop payload rest)"

definition evaluateCondition :: "EdgeCondition \<Rightarrow> AgentContext \<Rightarrow> js_error + bool" where
  "evaluateCondition condition context =
     (if cond_always condition = Some True then Inr True
      else case intent_clause condition context of
             Inl e \<Rightarrow> Inl e
           | Inr False \<Rightarrow> Inr False
           | Inr True \<Rightarrow>
               (case ctx_payload context of
                  None \<Rightarrow> Inr True
                | Some payload \<Rightarrow>
                    if \<not> truthy (Some payload) then Inr True
                    else if (case cond_hasData condition of
                               None \<Rightarrow> False
                             | Some keys \<Rightarrow> \<not> list_all (\<lambda>key. key \<in> set (object_keys payload)) keys)
                         then Inr False
                    else if (case cond_lacks condition of
                               None \<Rightarrow> False
                             | Some keys \<Rightarrow> \<not> list_ex (\<lambda>key. key \<notin> set (object_keys payload)) keys)
                         then Inr False
                    else if (case cond_match condition of
                               None \<Rightarrow> False
                             | Some entries \<Rightarrow> \<not> match_loop payload entries)
                         then Inr False
                    else Inr True))"

section \<open>Transform pipeline\<close>

text \<open>
  \<open>result\<close> and \<open>picked\<close> are objects: the own properties and the prototype. The tests
  \<open>key in result\<close> and \<open>from in result\<close> and the reads and assignments of the loops go
  through the prototype chain.
\<close>

fun pick_loop ::
  "Runtime \<Rightarrow> (string \<times> jsval) list \<times> proto \<Rightarrow> string list \<Rightarrow> (string \<times> jsval) list \<times> proto \<Rightarrow>
   js_error + (string \<times> jsval) list \<times> proto" where
  "pick_loop rt result [] picked = Inr picked"
| "pick_loop rt result (key # keys) picked =
     (case lookup_property rt result key of
        None \<Rightarrow> pick_loop rt result keys picked
      | Some (Inl e) \<Rightarrow> Inl e
      | Some (Inr v) \<Rightarrow>
          (case set_property rt picked key v of
             Inl e \<Rightarrow> Inl e
           | Inr picked' \<Rightarrow> pick_loop rt result keys picked'))"

fun omit_loop :: "string list \<Rightarrow> (string \<times> 'v) list \<Rightarrow> (string \<times> 'v) list" where
  "omit_loop [] result = result"
| "omit_loop (key # keys) result = omit_loop keys (obj_delete key result)"

fun rename_loop ::
  "Runtime \<Rightarrow> (string \<times> string) list \<Rightarrow> (string \<times> jsval) list \<times> proto \<Rightarrow>
   js_error + (string \<times> jsval) list \<times> proto" where
  "rename_loop rt [] result = Inr result"
| "rename_loop rt ((from, to) # rest) result =
     (case lookup_property rt result from of
        None \<Rightarrow> rename_loop rt rest result
      | Some (Inl e) \<Rightarrow> Inl e
      | Some (Inr v) \<Rightarrow>
          (case set_property rt result to v of
             Inl e \<Rightarrow> Inl e
           | Inr result' \<Rightarrow> rename_loop rt rest (obj_delete from (fst result'), snd result')))"

definition applyTransform :: "Runtime \<Rightarrow> json option \<Rightarrow> EdgeTransform \<Rightarrow> js_error + outval option" where
  "applyTransform rt payload transform =
     (if \<not> truthy payload \<or> \<not> typeof_object payload then Inr (map_option Passed payload)
      else
        (let result = (define_all (as_values (own_entries (the payload))) [],
                       PBuiltin ObjectPrototype)
         in case (case tr_pick transform of
                    Some keys \<Rightarrow> pick_loop rt result keys ([], PBuiltin ObjectPrototype)
                  | None \<Rightarrow> Inr result) of
              Inl e \<Rightarrow> Inl e
            | Inr result \<Rightarrow>
                (let result = (case tr_omit transform of
                                 Some keys \<Rightarrow> (omit_loop keys (fst result), snd result)
                               | None \<Rightarrow> result)
                 in case (case tr_rename transform of
                            Some entries \<Rightarrow> rename_loop rt entries result
                          | None \<Rightarrow> Inr result) of
                      Inl e \<Rightarrow> Inl e
                    | Inr result \<Rightarrow>
                        (let result = (case tr_inject transform of
                                         Some inject \<Rightarrow>
                                           (define_all (as_values inject) (define_all (fst result) []),
                                            PBuiltin ObjectPrototype)
                                       | None \<Rightarrow> result)
                         in Inr (Some (Built (fst result) (snd result)))))))"

section \<open>Journey recorder\<close>

text \<open>\<open>appendFile\<close> creates the file when it is missing.\<close>

definition appendFile :: "Env \<Rightarrow> LogEntry list option \<Rightarrow> LogEntry \<Rightarrow> js_error + LogEntry list option" where
  "appendFile env file entry =
     (if env_append_ok env
      then Inr (Some ((case file of None \<Rightarrow> [] | Some es \<Rightarrow> es) @ [entry]))
      else Inl IOError)"

text \<open>
  The payload of a step as \<open>JSON.stringify\<close> writes it and \<open>JSON.parse\<close> reads it back:
  a JSON value is itself; an object built by a transform is the object of its own
  properties when they are all JSON values and no callable \<open>toJSON\<close> is found on it,
  and what the runtime gives otherwise.
\<close>

fun json_of :: "jsval \<Rightarrow> json option" where
  "json_of (VJson j) = Some j"
| "json_of (VBuiltin b) = None"

definition stringify :: "Runtime \<Rightarrow> outval option \<Rightarrow> js_error + json option" where
  "stringify rt payload =
     (case payload of
        None \<Rightarrow> Inr None
      | Some (Passed j) \<Rightarrow> Inr (Some j)
      | Some (Built entries p) \<Rightarrow>
          if list_all (\<lambda>(k, v). json_of v \<noteq> None) entries
             \<and> (case lookup_property rt (entries, p) ''toJSON'' of
                   None \<Rightarrow> True
                 | Some (Inr (VJson j)) \<Rightarrow> True
                 | Some other \<Rightarrow> False)
          then Inr (Some (JObj (map (\<lambda>(k, v). (k, the (json_of v))) entries)))
          else rt_stringify rt entries p)"

text \<open>
  The in-memory journey keeps the step; the line is written inside \<open>try\<close>, so that an
  error of \<open>JSON.stringify\<close> or of \<open>appendFile\<close> is caught.
\<close>

definition logStep :: "Env \<Rightarrow> AgentContext \<Rightarrow> JourneyStep \<Rightarrow> Hive \<Rightarrow> Hive" where
  "logStep env context step st =
     (let journeyId = (if nonempty (ctx_origin context) then the (ctx_origin context) else ''anonymous'');
          js = (if journeyId \<in> fst ` set (journeys st) then journeys st
                else journeys st @
                     [(journeyId,
                       \<lparr>journey_id = journeyId, journey_agentId = journeyId,
                        journey_started = env_now env, journey_ended = None,
                        journey_steps = [], journey_status = Active\<rparr>)]);
          js = map (\<lambda>(k, j). if k = journeyId
                              then (k, j\<lparr>journey_steps := journey_steps j @ [step]\<rparr>)
                              else (k, j)) js
      in case stringify (env_runtime env) (step_payload step) of
           Inl e \<Rightarrow> st\<lparr>journeys := js\<rparr>
         | Inr written \<Rightarrow>
             (let logEntry = \<lparr>entry_step = step\<lparr>step_payload := map_option Passed written\<rparr>,
                              entry_journeyId = journeyId\<rparr>
              in case appendFile env (journeyLog st) logEntry of
                   Inr file \<Rightarrow> st\<lparr>journeys := js, journeyLog := file\<rparr>
                 | Inl e \<Rightarrow> st\<lparr>journeys := js\<rparr>))"

text \<open>\<open>limit\<close> is an optional number, 100 when omitted; a missing file is caught.\<close>

definition getJourneyLog :: "Hive \<Rightarrow> int option \<Rightarrow> LogEntry list" where
  "getJourneyLog st limit_opt =
     (let limit = (case limit_opt of None \<Rightarrow> 100 | Some l \<Rightarrow> l)
      in case journeyLog st of
           None \<Rightarrow> []
         | Some steps \<Rightarrow> js_slice_from (- limit) steps)"

definition getJourney :: "Hive \<Rightarrow> string \<Rightarrow> Journey option" where
  "getJourney st jid = map_of (journeys st) jid"

section \<open>Enter, traverse, deposit\<close>

definition enter :: "Env \<Rightarrow> Hive \<Rightarrow> string \<Rightarrow> AgentContext option \<Rightarrow> Hex option \<times> Hive" where
  "enter env st hexId context =
     (let hex = getHex st hexId
      in case (hex, context) of
           (Some h, Some c) \<Rightarrow>
             (hex, logStep env c
                     \<lparr>step_hexId = hexId, step_action = Enter, step_timestamp = env_now env,
                      step_payload = map_option Passed (ctx_payload c), step_edgeId = None\<rparr> st)
         | _ \<Rightarrow> (hex, st))"

definition startsWith :: "string \<Rightarrow> string \<Rightarrow> bool" where
  "startsWith s p = (take (length p) s = p)"

definition failure :: "string \<Rightarrow> string \<Rightarrow> TraversalResult" where
  "failure dest msg =
     \<lparr>success = False, destination = dest, res_payload = None, external = None, error = Some msg\<rparr>"

definition traverse :: "Env \<Rightarrow> Hive \<Rightarrow> string \<Rightarrow> string \<Rightarrow> AgentContext \<Rightarrow> (js_error + TraversalResult) \<times> Hive" where
  "traverse env st fromHexId edgeId context =
     (case getHex st fromHexId of
        None \<Rightarrow> (Inr (failure [] ''Source hex not found''), st)
      | Some hex \<Rightarrow>
          (case find (\<lambda>e. edge_id e = edgeId) (hex_edges hex) of
             None \<Rightarrow> (Inr (failure [] ''Edge not found''), st)
           | Some edge \<Rightarrow>
               (case evaluateCondition (edge_when edge) context of
                  Inl e \<Rightarrow> (Inl e, st)
                | Inr False \<Rightarrow> (Inr (failure (edge_to edge) ''Edge condition not met''), st)
                | Inr True \<Rightarrow>
                    (case (case edge_transform edge of
                             Some t \<Rightarrow> applyTransform (env_runtime env) (ctx_payload context) t
                           | None \<Rightarrow> Inr (map_option Passed (ctx_payload context))) of
                       Inl e \<Rightarrow> (Inl e, st)
                     | Inr payload \<Rightarrow>
                         (let st' = logStep env context
                                      \<lparr>step_hexId = fromHexId, step_action = Exit,
                                       step_timestamp = env_now env, step_payload = payload,
                                       step_edgeId = Some edgeId\<rparr> st;
                              isExternal = startsWith (edge_to edge) ''external:''
                          in (Inr \<lparr>success = True, destination = edge_to edge,
                                   res_payload = payload, external = Some isExternal,
                                   error = None\<rparr>, st'))))))"

text \<open>The merge of the deposited data into \<open>hex.contents.data\<close>.\<close>

definition merge_data :: "json option \<Rightarrow> json option \<Rightarrow> json option" where
  "merge_data existingData d =
     (case (existingData, d) of
        (Some (JArr xs), Some (JArr ys)) \<Rightarrow> Some (JArr (xs @ ys))
      | _ \<Rightarrow>
          if typeof_object existingData \<and> typeof_object d
          then Some (JObj (spread (spread [] (the existingData)) (the d)))
          else d)"

definition deposit :: "Env \<Rightarrow> Hive \<Rightarrow> string \<Rightarrow> json option \<Rightarrow> AgentContext option \<Rightarrow> bool \<times> Hive" where
  "deposit env st hexId d context =
     (case getHex st hexId of
        None \<Rightarrow> (False, st)
      | Some hex \<Rightarrow>
          (let existingData = contents_data (hex_contents hex);
               hex' = hex\<lparr>hex_contents := (hex_contents hex)\<lparr>contents_data := merge_data existingData d\<rparr>,
                          hex_updated := env_now env\<rparr>;
               st1 = saveHex hex' st;
               st2 = (case context of
                        Some c \<Rightarrow>
                          logStep env c
                            \<lparr>step_hexId = hexId, step_action = Deposit, step_timestamp = env_now env,
                             step_payload = map_option Passed d, step_edgeId = None\<rparr> st1
                      | None \<Rightarrow> st1)
           in (True, st2)))"

section \<open>The transform as the specification words it\<close>









text \<open>The data a node holds, as read back from the store.\<close>

definition data_at :: "Hive \<Rightarrow> string \<Rightarrow> json option" where
  "data_at st hexId =
     (case getHex st hexId of None \<Rightarrow> None | Some hex \<Rightarrow> contents_data (hex_contents hex))"

section \<open>Example nodes\<close>

definition ex_payload :: json where
  "ex_payload = JObj [(''a'', JNum 1), (''b'', JNum 2), (''c'', JNum 3)]"

definition ex_transform :: EdgeTransform where
  "ex_transform =
     \<lparr>tr_pick = Some [''a'', ''b''], tr_omit = None,
      tr_inject = Some [(''y'', JNum 9)], tr_rename = Some [(''a'', ''x'')]\<rparr>"

definition ex_quirk :: EdgeCondition where
  "ex_quirk =
     \<lparr>cond_intent = None, cond_hasData = Some [''a''], cond_lacks = Some [''a''],
      cond_match = None, cond_always = None\<rparr>"

definition ex_edge_out :: Edge where
  "ex_edge_out =
     \<lparr>edge_id = ''out'', edge_to = ''external:ci'',
      edge_when = \<lparr>cond_intent = Some ''launch'', cond_hasData = None, cond_lacks = None,
                   cond_match = None, cond_always = None\<rparr>,
      edge_transform = Some ex_transform, edge_priority = 5, edge_description = ''hand off''\<rparr>"

definition ex_edge_next :: Edge where
  "ex_edge_next =
     \<lparr>edge_id = ''next'', edge_to = ''ui'',
      edge_when = \<lparr>cond_intent = None, cond_hasData = Some [''a'', ''z''], cond_lacks = None,
                   cond_match = None, cond_always = None\<rparr>,
      edge_transform = None, edge_priority = 1, edge_description = ''go on''\<rparr>"

definition ex_ops :: Hex where
  "ex_ops =
     \<lparr>hex_id = ''ops'', hex_name = ''Ops and Ship'', hex_type = Data,
      hex_contents = \<lparr>contents_data = Some (JObj [(''x'', JNum 1)]), contents_refs = None,
                      contents_tools = None\<rparr>,
      entryHints = [''deployment'', ''deploy'', ''shipping''],
      hex_edges = [ex_edge_out, ex_edge_next],
      hex_tags = [''ops''], hex_description = None,
      hex_created = ''t0'', hex_updated = ''t0''\<rparr>"

definition ex_ui :: Hex where
  "ex_ui =
     \<lparr>hex_id = ''ui'', hex_name = ''Interactive Elements'', hex_type = Data,
      hex_contents = \<lparr>contents_data = Some (JArr [JNum 1, JNum 2]), contents_refs = None,
                      contents_tools = None\<rparr>,
      entryHints = [''buttons'', ''interactive states'', ''launch page''],
      hex_edges = [],
      hex_tags = [''ui''], hex_description = Some ''Buttons and forms'',
      hex_created = ''t0'', hex_updated = ''t0''\<rparr>"

definition ex_hive :: Hive where
  "ex_hive = \<lparr>storage = [(''ops'', ex_ops), (''ui'', ex_ui)], journeys = [], journeyLog = None\<rparr>"

text \<open>
  A runtime for the examples. Of the built-in objects it knows the function \<open>Object\<close>
  with its read-only properties \<open>name\<close>, \<open>length\<close> and \<open>prototype\<close>; every other lookup
  ends at \<open>Object.prototype\<close>. No example writes a built-in object to the log.
\<close>

definition ex_runtime :: Runtime where
  "ex_runtime =
     \<lparr>rt_lookup = (\<lambda>b key.
         if b = Builtin ''Object'' \<and> key = ''name''
           then Some (DataProp (VJson (JStr ''Object'')) False)
         else if b = Builtin ''Object'' \<and> key = ''length''
           then Some (DataProp (VJson (JNum 1)) False)
         else if b = Builtin ''Object'' \<and> key = ''prototype''
           then Some (DataProp (VBuiltin ObjectPrototype) False)
         else object_prototype_prop key),
      rt_stringify = (\<lambda>entries p. Inl TypeError)\<rparr>"

definition ex_env :: Env where
  "ex_env = \<lparr>env_now = ''t1'', env_append_ok = True, env_runtime = ex_runtime\<rparr>"

definition ex_ctx :: AgentContext where
  "ex_ctx =
     \<lparr>ctx_intent = Some ''ship it'', ctx_payload = Some ex_payload, ctx_visited = None,
      ctx_origin = Some ''agent-1'', ctx_depth = None\<rparr>"

definition ex_blank :: AgentContext where
  "ex_blank =
     \<lparr>ctx_intent = None, ctx_payload = None, ctx_visited = None, ctx_origin = None,
      ctx_depth = None\<rparr>"

text \<open>The state after the agent has entered both nodes.\<close>

definition ex_logged :: Hive where
  "ex_logged = snd (enter ex_env (snd (enter ex_env ex_hive ''ops'' (Some ex_ctx))) ''ui'' (Some ex_ctx))"

definition ex_entry :: "string \<Rightarrow> LogEntry" where
  "ex_entry hexId =
     \<lparr>entry_step = \<lparr>step_hexId = hexId, step_action = Enter, step_timestamp = ''t1'',
                     step_payload = Some (Passed ex_payload), step_edgeId = None\<rparr>,
      entry_journeyId = ''agent-1''\<rparr>"





section \<open>Properties of the query engine\<close>

lemma set_js_slice: "set (js_slice a b xs) \<subseteq> set xs"
proof -
  have "set (take n (drop m xs)) \<subseteq> set xs" for n m
    using set_take_subset[of n "drop m xs"] set_drop_subset[of m xs] by blast
  then show ?thesis by (simp add: js_slice_def Let_def)
qed

lemma sorted_wrt_js_slice: "sorted_wrt P xs \<Longrightarrow> sorted_wrt P (js_slice a b xs)"
  by (simp add: js_slice_def Let_def sorted_wrt_take sorted_wrt_drop)

lemma length_js_slice: "0 \<le> l \<Longrightarrow> int (length (js_slice 0 l xs)) \<le> l"
  by (simp add: js_slice_def slice_bound_def Let_def)

lemma sorted_desc_sort_key:
  "sorted_wrt (\<lambda>a b. score b \<le> score a) (sort_key (\<lambda>r. - score r) (rs :: QueryResult list))"
proof -
  have "sorted (map (\<lambda>r. - score r) (sort_key (\<lambda>r. - score r) rs))"
    by (rule sorted_sort_key)
  then show ?thesis by (simp add: sorted_map)
qed

lemma score_hex_Some:
  assumes "score_hex ei h = Inr (Some r)"
  shows "0 < score r \<and> qr_hex r = h"
proof -
  from assms obtain matched s1 where h1: "hint_loop ei (entryHints h) ([], 0) = Inr (matched, s1)"
    by (cases "hint_loop ei (entryHints h) ([], 0)") (auto simp: score_hex_def)
  from assms h1 obtain en where h2: "expandWithSynonyms (tokenize (hex_name h)) = Inr en"
    by (cases "expandWithSynonyms (tokenize (hex_name h))") (auto simp: score_hex_def)
  from assms h1 h2 obtain s3 where
    h3: "description_score ei h (s1 + of_nat (wordOverlap ei en) * (1 / 2)) = Inr s3"
    by (cases "description_score ei h (s1 + of_nat (wordOverlap ei en) * (1 / 2))")
       (auto simp: score_hex_def)
  from assms h1 h2 h3 show ?thesis
    by (auto simp: score_hex_def Let_def split: if_splits)
qed

lemma query_loop_cases:
  assumes "query_loop ei (h # hs) acc = Inr rs"
  obtains (skip) "score_hex ei h = Inr None" "query_loop ei hs acc = Inr rs"
    | (push) r where "score_hex ei h = Inr (Some r)" "query_loop ei hs (acc @ [r]) = Inr rs"
  using assms by (auto split: sum.splits option.splits)

lemma query_loop_positive:
  "query_loop ei hs acc = Inr rs \<Longrightarrow> \<forall>r\<in>set acc. 0 < score r \<Longrightarrow> \<forall>r\<in>set rs. 0 < score r"
proof (induction hs arbitrary: acc)
  case Nil
  then show ?case by simp
next
  case (Cons h hs)
  from Cons.prems(1) show ?case
  proof (cases rule: query_loop_cases)
    case skip
    from skip(2) Cons.prems(2) show ?thesis by (rule Cons.IH)
  next
    case (push r)
    from push(1) have "0 < score r" by (simp add: score_hex_Some)
    with Cons.prems(2) have "\<forall>x\<in>set (acc @ [r]). 0 < score x" by simp
    with push(2) show ?thesis by (rule Cons.IH)
  qed
qed

text \<open>
  C1 (as amended). For every intent, every node store and every limit (5 when omitted),
  a list returned by \<open>query\<close> holds only results with a score above 0 and is sorted by
  non-increasing score; when the limit is not negative the list is no longer than the
  limit.
\<close>

theorem query_ranked:
  assumes "query st intent limit_opt = Inr rs"
  shows "(\<forall>r\<in>set rs. 0 < score r)
       \<and> sorted_wrt (\<lambda>a b. score b \<le> score a) rs
       \<and> (0 \<le> (case limit_opt of None \<Rightarrow> 5 | Some l \<Rightarrow> l) \<longrightarrow>
            int (length rs) \<le> (case limit_opt of None \<Rightarrow> 5 | Some l \<Rightarrow> l))"
proof -
  define limit :: int where "limit = (case limit_opt of None \<Rightarrow> 5 | Some l \<Rightarrow> l)"
  from assms obtain ei results where
    loop: "query_loop ei (getAllHexes st) [] = Inr results"
    and rs: "rs = js_slice 0 limit (sort_key (\<lambda>r. - score r) results)"
    by (auto simp: query_def Let_def limit_def split: sum.splits)
  from loop have pos: "\<forall>r\<in>set results. 0 < score r"
    by (rule query_loop_positive) simp
  have "set rs \<subseteq> set results"
    using set_js_slice[of 0 limit "sort_key (\<lambda>r. - score r) results"] by (simp add: rs)
  with pos have 1: "\<forall>r\<in>set rs. 0 < score r" by blast
  have 2: "sorted_wrt (\<lambda>a b. score b \<le> score a) rs"
    unfolding rs by (rule sorted_wrt_js_slice) (rule sorted_desc_sort_key)
  have 3: "int (length rs) \<le> limit" if "0 \<le> limit"
    unfolding rs using that by (rule length_js_slice)
  from 1 2 3 show ?thesis by (simp add: limit_def)
qed

theorem query_ranked_witness:
  "query ex_hive ''launch'' None =
     Inr [\<lparr>qr_hex = ex_ops, score = 25 / 2, matchedHints = [''deploy'']\<rparr>,
          \<lparr>qr_hex = ex_ui, score = 8, matchedHints = [''launch page'']\<rparr>]
   \<and> list_all (\<lambda>r. 0 < score r)
        [\<lparr>qr_hex = ex_ops, score = 25 / 2, matchedHints = [''deploy'']\<rparr>,
         \<lparr>qr_hex = ex_ui, score = 8, matchedHints = [''launch page'']\<rparr>]
   \<and> sorted_wrt (\<lambda>a b. score b \<le> score a)
        [\<lparr>qr_hex = ex_ops, score = 25 / 2, matchedHints = [''deploy'']\<rparr>,
         \<lparr>qr_hex = ex_ui, score = 8, matchedHints = [''launch page'']\<rparr>]
   \<and> (0::int) \<le> (case (None :: int option) of None \<Rightarrow> 5 | Some l \<Rightarrow> l)
   \<and> int (length [\<lparr>qr_hex = ex_ops, score = 25 / 2, matchedHints = [''deploy'']\<rparr>,
                   \<lparr>qr_hex = ex_ui, score = 8, matchedHints = [''launch page'']\<rparr>]) \<le> 5"
proof -
  have q: "query ex_hive ''launch'' None =
     Inr [\<lparr>qr_hex = ex_ops, score = 25 / 2, matchedHints = [''deploy'']\<rparr>,
          \<lparr>qr_hex = ex_ui, score = 8, matchedHints = [''launch page'']\<rparr>]"
    by code_simp
  from query_ranked[OF q] q show ?thesis by (simp add: list_all_iff)
qed

text \<open>
  C1 as stated fails for a negative limit: \<open>slice(0, -1)\<close> drops the last result only,
  and no list is as short as \<open>-1\<close>. The scores of the list returned are above 0 and in
  order all the same.
\<close>

theorem query_negative_limit_counterexample:
  "query ex_hive ''launch'' (Some (- 1)) =
     Inr [\<lparr>qr_hex = ex_ops, score = 25 / 2, matchedHints = [''deploy'']\<rparr>]
   \<and> \<not> int (length [\<lparr>qr_hex = ex_ops, score = 25 / 2, matchedHints = [''deploy'']\<rparr>]) \<le> - 1"
proof -
  have "query ex_hive ''launch'' (Some (- 1)) =
     Inr [\<lparr>qr_hex = ex_ops, score = 25 / 2, matchedHints = [''deploy'']\<rparr>]"
    by code_simp
  then show ?thesis by simp
qed

section \<open>Properties of the condition evaluator\<close>

lemma intent_clause_skipped:
  "ctx_intent X = None \<or> ctx_intent X = Some [] \<Longrightarrow> intent_clause C X = Inr True"
  by (auto simp: intent_clause_def nonempty_def)

lemma intent_clause_unset:
  "cond_intent C = None \<Longrightarrow> intent_clause C X = Inr True"
  by (simp add: intent_clause_def nonempty_def)

text \<open>
  C2. \<open>evaluateCondition\<close> checks a clause only when its input is there: with the context
  intent absent or empty the guard evaluates as if it declared no intent; with the
  payload absent it evaluates as if it declared no \<open>hasData\<close>, \<open>lacks\<close> and \<open>match\<close>; so
  with neither input every guard passes, and a guard without intent, whatever its
  \<open>hasData\<close> and \<open>lacks\<close>, passes for every context without payload.
\<close>

theorem evaluateCondition_absent_inputs:
  "(ctx_intent X = None \<or> ctx_intent X = Some [] \<longrightarrow>
      evaluateCondition C X = evaluateCondition (C\<lparr>cond_intent := None\<rparr>) X)
   \<and> (ctx_payload X = None \<longrightarrow>
      evaluateCondition C X =
      evaluateCondition (C\<lparr>cond_hasData := None, cond_lacks := None, cond_match := None\<rparr>) X)
   \<and> (ctx_payload X = None \<and> (ctx_intent X = None \<or> ctx_intent X = Some []) \<longrightarrow>
      evaluateCondition C X = Inr True)
   \<and> (ctx_payload X = None \<and> cond_intent C = None \<longrightarrow> evaluateCondition C X = Inr True)"
proof (intro conjI impI)
  assume a: "ctx_intent X = None \<or> ctx_intent X = Some []"
  then have "intent_clause C X = Inr True" "intent_clause (C\<lparr>cond_intent := None\<rparr>) X = Inr True"
    by (simp_all add: intent_clause_skipped)
  then show "evaluateCondition C X = evaluateCondition (C\<lparr>cond_intent := None\<rparr>) X"
    by (simp add: evaluateCondition_def cong: if_cong option.case_cong)
next
  assume p: "ctx_payload X = None"
  have "intent_clause (C\<lparr>cond_hasData := None, cond_lacks := None, cond_match := None\<rparr>) X
        = intent_clause C X"
    by (simp add: intent_clause_def)
  with p show "evaluateCondition C X =
      evaluateCondition (C\<lparr>cond_hasData := None, cond_lacks := None, cond_match := None\<rparr>) X"
    by (simp add: evaluateCondition_def split: sum.splits bool.splits)
next
  assume "ctx_payload X = None \<and> (ctx_intent X = None \<or> ctx_intent X = Some [])"
  then show "evaluateCondition C X = Inr True"
    by (simp add: evaluateCondition_def intent_clause_skipped)
next
  assume "ctx_payload X = None \<and> cond_intent C = None"
  then show "evaluateCondition C X = Inr True"
    by (simp add: evaluateCondition_def intent_clause_unset)
qed

theorem evaluateCondition_absent_inputs_witness:
  "(ctx_intent ex_blank = None \<or> ctx_intent ex_blank = Some [])
   \<and> ctx_payload ex_blank = None
   \<and> cond_intent ex_quirk = None
   \<and> evaluateCondition (ex_quirk\<lparr>cond_intent := Some ''launch''\<rparr>) ex_blank = Inr True
   \<and> evaluateCondition ex_quirk ex_blank = Inr True
   \<and> evaluateCondition ex_quirk (ex_blank\<lparr>ctx_payload := Some (JObj [(''a'', JNum 1)])\<rparr>)
       = Inr False"
proof -
  have i: "ctx_intent ex_blank = None \<or> ctx_intent ex_blank = Some []"
    by (simp add: ex_blank_def)
  have p: "ctx_payload ex_blank = None" by (simp add: ex_blank_def)
  have c: "cond_intent ex_quirk = None" by (simp add: ex_quirk_def)
  have f: "evaluateCondition ex_quirk (ex_blank\<lparr>ctx_payload := Some (JObj [(''a'', JNum 1)])\<rparr>)
       = Inr False"
    by code_simp
  from evaluateCondition_absent_inputs[where X = ex_blank
         and C = "ex_quirk\<lparr>cond_intent := Some ''launch''\<rparr>"] i p
  have r1: "evaluateCondition (ex_quirk\<lparr>cond_intent := Some ''launch''\<rparr>) ex_blank = Inr True"
    by blast
  from evaluateCondition_absent_inputs[where X = ex_blank and C = ex_quirk] p c
  have r2: "evaluateCondition ex_quirk ex_blank = Inr True"
    by blast
  from i p c r1 r2 f show ?thesis by blast
qed

section \<open>Properties of the traversal controller\<close>

text \<open>
  C5. \<open>traverse\<close> returns, with the state as it was: "Source hex not found" with an empty
  destination when the store has no node under the source id; "Edge not found" with an
  empty destination when the node carries no edge of the given id; "Edge condition not
  met" with the destination of the edge when the guard of the edge evaluates to false.
\<close>

theorem traverse_failures:
  "(getHex st src = None \<longrightarrow>
      traverse env st src eid ctx =
        (Inr \<lparr>success = False, destination = [], res_payload = None, external = None,
              error = Some ''Source hex not found''\<rparr>, st))
   \<and> (getHex st src = Some hex \<and> eid \<notin> edge_id ` set (hex_edges hex) \<longrightarrow>
      traverse env st src eid ctx =
        (Inr \<lparr>success = False, destination = [], res_payload = None, external = None,
              error = Some ''Edge not found''\<rparr>, st))
   \<and> (getHex st src = Some hex \<and> find (\<lambda>e. edge_id e = eid) (hex_edges hex) = Some edge
        \<and> evaluateCondition (edge_when edge) ctx = Inr False \<longrightarrow>
      traverse env st src eid ctx =
        (Inr \<lparr>success = False, destination = edge_to edge, res_payload = None, external = None,
              error = Some ''Edge condition not met''\<rparr>, st))"
proof (intro conjI impI)
  assume "getHex st src = None"
  then show "traverse env st src eid ctx =
        (Inr \<lparr>success = False, destination = [], res_payload = None, external = None,
              error = Some ''Source hex not found''\<rparr>, st)"
    by (simp add: traverse_def failure_def)
next
  assume a: "getHex st src = Some hex \<and> eid \<notin> edge_id ` set (hex_edges hex)"
  then have "find (\<lambda>e. edge_id e = eid) (hex_edges hex) = None"
    by (auto simp: find_None_iff)
  with a show "traverse env st src eid ctx =
        (Inr \<lparr>success = False, destination = [], res_payload = None, external = None,
              error = Some ''Edge not found''\<rparr>, st)"
    by (simp add: traverse_def failure_def)
next
  assume "getHex st src = Some hex \<and> find (\<lambda>e. edge_id e = eid) (hex_edges hex) = Some edge
        \<and> evaluateCondition (edge_when edge) ctx = Inr False"
  then show "traverse env st src eid ctx =
        (Inr \<lparr>success = False, destination = edge_to edge, res_payload = None, external = None,
              error = Some ''Edge condition not met''\<rparr>, st)"
    by (simp add: traverse_def failure_def)
qed

theorem traverse_failures_witness:
  "getHex ex_hive ''zzz'' = None
   \<and> traverse ex_env ex_hive ''zzz'' ''out'' ex_ctx =
        (Inr \<lparr>success = False, destination = [], res_payload = None, external = None,
              error = Some ''Source hex not found''\<rparr>, ex_hive)
   \<and> getHex ex_hive ''ops'' = Some ex_ops
   \<and> ''nope'' \<notin> edge_id ` set (hex_edges ex_ops)
   \<and> traverse ex_env ex_hive ''ops'' ''nope'' ex_ctx =
        (Inr \<lparr>success = False, destination = [], res_payload = None, external = None,
              error = Some ''Edge not found''\<rparr>, ex_hive)
   \<and> find (\<lambda>e. edge_id e = ''next'') (hex_edges ex_ops) = Some ex_edge_next
   \<and> evaluateCondition (edge_when ex_edge_next) ex_ctx = Inr False
   \<and> traverse ex_env ex_hive ''ops'' ''next'' ex_ctx =
        (Inr \<lparr>success = False, destination = ''ui'', res_payload = None, external = None,
              error = Some ''Edge condition not met''\<rparr>, ex_hive)"
proof -
  have a: "getHex ex_hive ''zzz'' = None"
    by (simp add: getHex_def ex_hive_def)
  have b: "getHex ex_hive ''ops'' = Some ex_ops"
    by (simp add: getHex_def ex_hive_def)
  have c: "''nope'' \<notin> edge_id ` set (hex_edges ex_ops)"
    by (simp add: ex_ops_def ex_edge_out_def ex_edge_next_def)
  have d: "find (\<lambda>e. edge_id e = ''next'') (hex_edges ex_ops) = Some ex_edge_next"
    by (simp add: ex_ops_def ex_edge_out_def ex_edge_next_def)
  have e: "evaluateCondition (edge_when ex_edge_next) ex_ctx = Inr False"
    by code_simp
  have t: "edge_to ex_edge_next = ''ui''" by (simp add: ex_edge_next_def)
  note r1 = traverse_failures[where st = ex_hive and src = "''zzz''" and env = ex_env
                and eid = "''out''" and ctx = ex_ctx]
  note r2 = traverse_failures[where st = ex_hive and src = "''ops''" and env = ex_env
                and eid = "''nope''" and ctx = ex_ctx and hex = ex_ops]
  note r3 = traverse_failures[where st = ex_hive and src = "''ops''" and env = ex_env
                and eid = "''next''" and ctx = ex_ctx and hex = ex_ops and edge = ex_edge_next]
  from r1 r2 r3 a b c d e t show ?thesis by simp
qed




lemma traverse_failure_unchanged:
  assumes "traverse env st src eid ctx = (Inr r, st')" and "\<not> success r"
  shows "st' = st \<and> res_payload r = None"
  using assms
  by (auto simp: traverse_def failure_def Let_def split: option.splits sum.splits bool.splits)

lemma deposit_false_unchanged:
  assumes "deposit env st hexId d c = (False, st')"
  shows "st' = st \<and> getHex st hexId = None"
  using assms by (auto simp: deposit_def Let_def split: option.splits)

text \<open>
  C10. A failed \<open>traverse\<close> and a \<open>deposit\<close> that returns false leave the state as it was:
  the node store, the in-memory journeys and the durable journey log are unchanged, and
  the failure result carries no payload.
\<close>

theorem failure_atomicity:
  "(traverse env st src eid ctx = (Inr r, st') \<and> \<not> success r \<longrightarrow> st' = st \<and> res_payload r = None)
   \<and> (deposit env st hexId d c = (False, st') \<longrightarrow> st' = st)"
  using traverse_failure_unchanged deposit_false_unchanged by blast

theorem failure_atomicity_witness:
  "traverse ex_env ex_hive ''ops'' ''next'' ex_ctx =
     (Inr \<lparr>success = False, destination = ''ui'', res_payload = None, external = None,
           error = Some ''Edge condition not met''\<rparr>, ex_hive)
   \<and> \<not> success \<lparr>success = False, destination = ''ui'', res_payload = None, external = None,
                  error = Some ''Edge condition not met''\<rparr>
   \<and> deposit ex_env ex_hive ''zzz'' (Some (JNum 7)) (Some ex_ctx) = (False, ex_hive)"
proof -
  have a: "traverse ex_env ex_hive ''ops'' ''next'' ex_ctx =
     (Inr \<lparr>success = False, destination = ''ui'', res_payload = None, external = None,
           error = Some ''Edge condition not met''\<rparr>, ex_hive)"
    by code_simp
  have b: "deposit ex_env ex_hive ''zzz'' (Some (JNum 7)) (Some ex_ctx) = (False, ex_hive)"
    by code_simp
  from failure_atomicity[where env = ex_env and st = ex_hive and st' = ex_hive] a b
  show ?thesis by simp
qed

lemma expand_loop_no_io: "expand_loop ws e \<noteq> Inl IOError"
  by (induction ws arbitrary: e) (auto split: option.splits)

lemma evaluateCondition_no_io: "evaluateCondition c x \<noteq> Inl IOError"
proof -
  have "expandWithSynonyms ws \<noteq> Inl IOError" for ws
    by (simp add: expandWithSynonyms_def expand_loop_no_io)
  then have "intent_clause c x \<noteq> Inl IOError"
    by (auto simp: intent_clause_def split: sum.splits)
  then show ?thesis
    by (auto simp: evaluateCondition_def split: sum.splits bool.splits option.splits)
qed

lemma lookup_property_no_io: "lookup_property rt obj key \<noteq> Some (Inl IOError)"
  by (auto simp: lookup_property_def split: option.splits bprop.splits)

lemma set_property_no_io: "set_property rt obj key v \<noteq> Inl IOError"
  by (auto simp: set_property_def split: option.splits bprop.splits)

lemma pick_loop_no_io: "pick_loop rt result keys picked \<noteq> Inl IOError"
proof (induction keys arbitrary: picked)
  case Nil
  show ?case by simp
next
  case (Cons key keys)
  show ?case
  proof (cases "lookup_property rt result key")
    case None
    with Cons show ?thesis by simp
  next
    case (Some got)
    show ?thesis
    proof (cases got)
      case (Inl e)
      with Some lookup_property_no_io[of rt result key] show ?thesis by auto
    next
      case (Inr v)
      show ?thesis
      proof (cases "set_property rt picked key v")
        case (Inl e)
        with Some Inr set_property_no_io[of rt picked key v] show ?thesis by auto
      next
        case (Inr picked')
        with Some \<open>got = Inr v\<close> Cons[of picked'] show ?thesis by simp
      qed
    qed
  qed
qed

lemma rename_loop_no_io: "rename_loop rt entries result \<noteq> Inl IOError"
proof (induction entries arbitrary: result)
  case Nil
  show ?case by simp
next
  case (Cons entry entries)
  obtain src dst where entry: "entry = (src, dst)" by (cases entry)
  show ?case
  proof (cases "lookup_property rt result src")
    case None
    with entry Cons show ?thesis by simp
  next
    case (Some got)
    show ?thesis
    proof (cases got)
      case (Inl e)
      with Some entry lookup_property_no_io[of rt result src] show ?thesis by auto
    next
      case (Inr v)
      show ?thesis
      proof (cases "set_property rt result dst v")
        case (Inl e)
        with Some Inr entry set_property_no_io[of rt result dst v] show ?thesis by auto
      next
        case (Inr result')
        with Some \<open>got = Inr v\<close> entry
          Cons[of "(obj_delete src (fst result'), snd result')"] show ?thesis by simp
      qed
    qed
  qed
qed

lemma applyTransform_no_io: "applyTransform rt payload t \<noteq> Inl IOError"
proof (cases "\<not> truthy payload \<or> \<not> typeof_object payload")
  case True
  then show ?thesis by (simp add: applyTransform_def)
next
  case False
  define picked where
    "picked = (case tr_pick t of
                 Some keys \<Rightarrow>
                   pick_loop rt (define_all (as_values (own_entries (the payload))) [],
                                 PBuiltin ObjectPrototype) keys ([], PBuiltin ObjectPrototype)
               | None \<Rightarrow> Inr (define_all (as_values (own_entries (the payload))) [],
                              PBuiltin ObjectPrototype))"
  have p: "picked \<noteq> Inl IOError"
    unfolding picked_def using pick_loop_no_io by (simp split: option.splits)
  show ?thesis
  proof (cases picked)
    case (Inl e)
    from False Inl[unfolded picked_def] have "applyTransform rt payload t = Inl e"
      by (simp add: applyTransform_def Let_def)
    with p Inl show ?thesis by simp
  next
    case (Inr result1)
    define renamed where
      "renamed = (case tr_rename t of
                    Some entries \<Rightarrow>
                      rename_loop rt entries
                        (case tr_omit t of
                           Some keys \<Rightarrow> (omit_loop keys (fst result1), snd result1)
                         | None \<Rightarrow> result1)
                  | None \<Rightarrow> Inr (case tr_omit t of
                                   Some keys \<Rightarrow> (omit_loop keys (fst result1), snd result1)
                                 | None \<Rightarrow> result1))"
    have r: "renamed \<noteq> Inl IOError"
      unfolding renamed_def using rename_loop_no_io by (simp split: option.splits)
    show ?thesis
    proof (cases renamed)
      case (Inl e)
      from False \<open>picked = Inr result1\<close>[unfolded picked_def] Inl[unfolded renamed_def]
      have "applyTransform rt payload t = Inl e"
        by (simp add: applyTransform_def Let_def)
      with r Inl show ?thesis by simp
    next
      case (Inr result3)
      from False \<open>picked = Inr result1\<close>[unfolded picked_def] Inr[unfolded renamed_def]
      show ?thesis
        by (simp add: applyTransform_def Let_def)
    qed
  qed
qed

lemma traverse_no_io: "fst (traverse env st src eid ctx) \<noteq> Inl IOError"
proof (cases "getHex st src")
  case None
  then show ?thesis by (simp add: traverse_def)
next
  case (Some hex)
  show ?thesis
  proof (cases "find (\<lambda>e. edge_id e = eid) (hex_edges hex)")
    case None
    with Some show ?thesis by (simp add: traverse_def)
  next
    case edge: (Some edge)
    show ?thesis
    proof (cases "evaluateCondition (edge_when edge) ctx")
      case (Inl e)
      with Some edge evaluateCondition_no_io[of "edge_when edge" ctx] show ?thesis
        by (auto simp: traverse_def)
    next
      case (Inr passed)
      show ?thesis
      proof (cases passed)
        case False
        with Some edge Inr show ?thesis by (simp add: traverse_def)
      next
        case True
        define tr where
          "tr = (case edge_transform edge of
                   Some t \<Rightarrow> applyTransform (env_runtime env) (ctx_payload ctx) t
                 | None \<Rightarrow> Inr (map_option Passed (ctx_payload ctx)))"
        have "tr \<noteq> Inl IOError"
          unfolding tr_def using applyTransform_no_io by (simp split: option.splits)
        with Some edge Inr True show ?thesis
          by (cases tr) (auto simp: traverse_def Let_def tr_def[symmetric])
      qed
    qed
  qed
qed

text \<open>
  C8. Whether the append to the durable journey log succeeds or fails, \<open>enter\<close>,
  \<open>traverse\<close> and \<open>deposit\<close> return the same result, and no input/output error is
  raised by \<open>traverse\<close> (\<open>enter\<close> and \<open>deposit\<close> raise nothing at all).
\<close>

theorem log_append_failure_is_swallowed:
  "fst (enter (env\<lparr>env_append_ok := False\<rparr>) st hexId c)
     = fst (enter (env\<lparr>env_append_ok := True\<rparr>) st hexId c)
   \<and> fst (traverse (env\<lparr>env_append_ok := False\<rparr>) st src eid ctx)
       = fst (traverse (env\<lparr>env_append_ok := True\<rparr>) st src eid ctx)
   \<and> fst (traverse (env\<lparr>env_append_ok := False\<rparr>) st src eid ctx) \<noteq> Inl IOError
   \<and> fst (deposit (env\<lparr>env_append_ok := False\<rparr>) st hexId d c)
       = fst (deposit (env\<lparr>env_append_ok := True\<rparr>) st hexId d c)"
proof -
  have "fst (enter (env\<lparr>env_append_ok := False\<rparr>) st hexId c)
     = fst (enter (env\<lparr>env_append_ok := True\<rparr>) st hexId c)"
    by (auto simp: enter_def Let_def split: option.splits)
  moreover have "fst (traverse (env\<lparr>env_append_ok := False\<rparr>) st src eid ctx)
       = fst (traverse (env\<lparr>env_append_ok := True\<rparr>) st src eid ctx)"
    by (auto simp: traverse_def Let_def split: option.splits sum.splits bool.splits)
  moreover have "fst (deposit (env\<lparr>env_append_ok := False\<rparr>) st hexId d c)
       = fst (deposit (env\<lparr>env_append_ok := True\<rparr>) st hexId d c)"
    by (auto simp: deposit_def Let_def split: option.splits)
  ultimately show ?thesis using traverse_no_io by blast
qed

section \<open>Properties of the lexical matcher\<close>

lemma set_set_add: "set (set_add x s) = insert x (set s)"
  by (auto simp: set_add_def)

lemma set_set_add_all: "set (set_add_all xs s) = set xs \<union> set s"
  unfolding set_add_all_def by (induction xs arbitrary: s) (auto simp: set_set_add)

lemma set_expand_values:
  "set (expand_values w cm e) =
     set e \<union> {b. \<exists>k syns. (k, syns) \<in> set cm \<and> w \<in> set syns \<and> (b = k \<or> b \<in> set syns)}"
proof (induction cm arbitrary: e)
  case Nil
  then show ?case by simp
next
  case (Cons entry cm)
  obtain k syns where entry: "entry = (k, syns)" by (cases entry)
  show ?case
    unfolding entry by (auto simp: Cons.IH set_set_add_all set_set_add)
qed

lemma expand_single:
  "expandWithSynonyms [a] =
     (case map_of CONCEPT_MAP a of
        Some syns \<Rightarrow> Inr (expand_values a CONCEPT_MAP (set_add_all syns [a]))
      | None \<Rightarrow> if a \<in> set object_prototype_members then Inl TypeError
                else Inr (expand_values a CONCEPT_MAP [a]))"
  by (simp add: expandWithSynonyms_def set_add_all_def set_add_def split: option.splits)

lemma CONCEPT_MAP_distinct: "distinct (map fst CONCEPT_MAP)"
  by code_simp

lemma CONCEPT_MAP_synonyms_plain:
  "list_all (\<lambda>(k, syns). list_all (\<lambda>s. s \<notin> set object_prototype_members) syns) CONCEPT_MAP"
  by code_simp

lemma synonym_not_inherited:
  "(k, syns) \<in> set CONCEPT_MAP \<Longrightarrow> s \<in> set syns \<Longrightarrow> s \<notin> set object_prototype_members"
  using CONCEPT_MAP_synonyms_plain by (auto simp: list_all_iff)

lemma expand_single_set:
  assumes "expandWithSynonyms [a] = Inr xs"
  shows "set xs = insert a ((case map_of CONCEPT_MAP a of Some syns \<Rightarrow> set syns | None \<Rightarrow> {})
           \<union> {b. \<exists>k syns. (k, syns) \<in> set CONCEPT_MAP \<and> a \<in> set syns \<and> (b = k \<or> b \<in> set syns)})"
proof (cases "map_of CONCEPT_MAP a")
  case None
  with assms have "xs = expand_values a CONCEPT_MAP [a]"
    by (simp add: expand_single split: if_splits)
  then have "set xs = {a} \<union> {b. \<exists>k syns. (k, syns) \<in> set CONCEPT_MAP \<and> a \<in> set syns \<and> (b = k \<or> b \<in> set syns)}"
    by (simp add: set_expand_values)
  with None show ?thesis by auto
next
  case (Some syns)
  with assms have "xs = expand_values a CONCEPT_MAP (set_add_all syns [a])"
    by (simp add: expand_single)
  then have "set xs = (set syns \<union> {a}) \<union> {b. \<exists>k syns. (k, syns) \<in> set CONCEPT_MAP \<and> a \<in> set syns \<and> (b = k \<or> b \<in> set syns)}"
    by (simp add: set_expand_values set_set_add_all)
  with Some show ?thesis by auto
qed

lemma expand_single_returns:
  assumes "map_of CONCEPT_MAP b \<noteq> None \<or> b \<notin> set object_prototype_members"
  shows "\<exists>ys. expandWithSynonyms [b] = Inr ys"
  using assms by (auto simp: expand_single split: option.splits)

lemma expansion_symmetric:
  assumes "expandWithSynonyms [a] = Inr xs" and "b \<in> set xs"
  shows "\<exists>ys. expandWithSynonyms [b] = Inr ys \<and> a \<in> set ys"
proof -
  from assms(2) expand_single_set[OF assms(1)] consider
      (same) "b = a"
    | (key) syns where "map_of CONCEPT_MAP a = Some syns" "b \<in> set syns"
    | (rel) k syns where "(k, syns) \<in> set CONCEPT_MAP" "a \<in> set syns" "b = k \<or> b \<in> set syns"
    by (auto split: option.splits)
  then show ?thesis
  proof cases
    case same
    with assms(1) expand_single_set[OF assms(1)] show ?thesis by auto
  next
    case key
    from key(1) have mem: "(a, syns) \<in> set CONCEPT_MAP" by (rule map_of_SomeD)
    from synonym_not_inherited[OF mem key(2)] have "b \<notin> set object_prototype_members" .
    then obtain ys where ys: "expandWithSynonyms [b] = Inr ys"
      using expand_single_returns by blast
    from mem key(2) have "a \<in> set ys"
      unfolding expand_single_set[OF ys] by auto
    with ys show ?thesis by blast
  next
    case rel
    from rel(3) show ?thesis
    proof
      assume bk: "b = k"
      from CONCEPT_MAP_distinct rel(1) have m: "map_of CONCEPT_MAP k = Some syns"
        by (rule map_of_is_SomeI)
      then obtain ys where ys: "expandWithSynonyms [b] = Inr ys"
        using expand_single_returns[of b] bk by auto
      from m rel(2) bk have "a \<in> set ys"
        unfolding expand_single_set[OF ys] by simp
      with ys show ?thesis by blast
    next
      assume bs: "b \<in> set syns"
      from synonym_not_inherited[OF rel(1) bs] have "b \<notin> set object_prototype_members" .
      then obtain ys where ys: "expandWithSynonyms [b] = Inr ys"
        using expand_single_returns by blast
      from rel(1,2) bs have "a \<in> set ys"
        unfolding expand_single_set[OF ys] by auto
      with ys show ?thesis by blast
    qed
  qed
qed


lemma expand_loop_superset: "expand_loop ws e = Inr xs \<Longrightarrow> set e \<subseteq> set xs"
proof (induction ws arbitrary: e)
  case Nil
  then show ?case by simp
next
  case (Cons w ws)
  show ?case
  proof (cases "map_of CONCEPT_MAP w")
    case None
    with Cons.prems have "expand_loop ws (expand_values w CONCEPT_MAP e) = Inr xs"
      by (simp split: if_splits)
    then have "set (expand_values w CONCEPT_MAP e) \<subseteq> set xs" by (rule Cons.IH)
    then show ?thesis by (auto simp: set_expand_values)
  next
    case (Some syns)
    with Cons.prems have
      "expand_loop ws (expand_values w CONCEPT_MAP (set_add_all syns e)) = Inr xs"
      by simp
    then have "set (expand_values w CONCEPT_MAP (set_add_all syns e)) \<subseteq> set xs"
      by (rule Cons.IH)
    then show ?thesis by (auto simp: set_expand_values set_set_add_all)
  qed
qed

lemma expandWithSynonyms_superset: "expandWithSynonyms ws = Inr xs \<Longrightarrow> set ws \<subseteq> set xs"
  using expand_loop_superset[of ws "set_add_all ws []" xs]
  by (simp add: expandWithSynonyms_def set_set_add_all)

lemma wordOverlap_pos: "w \<in> set a \<Longrightarrow> w \<in> set b \<Longrightarrow> 0 < wordOverlap a b"
  by (auto simp: wordOverlap_def filter_empty_conv)

lemma hint_loop_mono:
  "hint_loop ei hints (m, s) = Inr (m', s') \<Longrightarrow> set m \<subseteq> set m' \<and> s \<le> s'"
proof (induction hints arbitrary: m s)
  case Nil
  then show ?case by simp
next
  case (Cons hint hints)
  from Cons.prems obtain eh where eh: "expandWithSynonyms (tokenize hint) = Inr eh"
    by (cases "expandWithSynonyms (tokenize hint)") auto
  show ?case
  proof (cases "0 < wordOverlap ei eh")
    case True
    with Cons.prems eh have
      "hint_loop ei hints (m @ [hint], s + of_nat (wordOverlap ei eh)) = Inr (m', s')"
      by (simp add: Let_def)
    from Cons.IH[OF this] show ?thesis
      by (auto intro: order_trans[rotated])
  next
    case False
    with Cons.prems eh have "hint_loop ei hints (m, s) = Inr (m', s')"
      by (simp add: Let_def)
    from Cons.IH[OF this] show ?thesis .
  qed
qed

lemma hint_loop_hit:
  "hint_loop ei hints (m, s) = Inr (m', s') \<Longrightarrow> hint \<in> set hints \<Longrightarrow>
   w \<in> set ei \<Longrightarrow> w \<in> set (tokenize hint) \<Longrightarrow>
   hint \<in> set m' \<and> s + 1 \<le> s'
   \<and> (\<exists>eh. expandWithSynonyms (tokenize hint) = Inr eh \<and> 0 < wordOverlap ei eh)"
proof (induction hints arbitrary: m s)
  case Nil
  then show ?case by simp
next
  case (Cons h0 hints)
  from Cons.prems(1) obtain eh where eh: "expandWithSynonyms (tokenize h0) = Inr eh"
    by (cases "expandWithSynonyms (tokenize h0)") auto
  show ?case
  proof (cases "hint = h0")
    case True
    from eh True Cons.prems(4) have "w \<in> set eh"
      using expandWithSynonyms_superset by blast
    with Cons.prems(3) have pos: "0 < wordOverlap ei eh" by (simp add: wordOverlap_pos)
    with Cons.prems(1) eh have
      rest: "hint_loop ei hints (m @ [h0], s + of_nat (wordOverlap ei eh)) = Inr (m', s')"
      by (simp add: Let_def)
    from pos have "(1::rat) \<le> of_nat (wordOverlap ei eh)"
      by (metis Suc_leI of_nat_1 of_nat_le_iff One_nat_def)
    with hint_loop_mono[OF rest] True eh pos show ?thesis by auto
  next
    case False
    with Cons.prems(2) have mem: "hint \<in> set hints" by simp
    show ?thesis
    proof (cases "0 < wordOverlap ei eh")
      case True
      with Cons.prems(1) eh have
        "hint_loop ei hints (m @ [h0], s + of_nat (wordOverlap ei eh)) = Inr (m', s')"
        by (simp add: Let_def)
      from Cons.IH[OF this mem Cons.prems(3,4)] show ?thesis by auto
    next
      case False
      with Cons.prems(1) eh have "hint_loop ei hints (m, s) = Inr (m', s')"
        by (simp add: Let_def)
      from Cons.IH[OF this mem Cons.prems(3,4)] show ?thesis .
    qed
  qed
qed

lemma tag_loop_mono: "sc \<le> tag_loop ei tags sc"
  unfolding tag_loop_def
proof (induction tags arbitrary: sc)
  case Nil
  then show ?case by simp
next
  case (Cons t ts)
  have "sc \<le> sc + 1 / 2" by simp
  also have "\<dots> \<le> fold (\<lambda>tag s. if toLowerCase tag \<in> set ei then s + 1 / 2 else s) ts (sc + 1 / 2)"
    by (rule Cons.IH)
  finally show ?case using Cons.IH[of sc] by simp
qed

lemma description_score_mono: "description_score ei h sc = Inr s3 \<Longrightarrow> sc \<le> s3"
  by (auto simp: description_score_def split: option.splits if_splits sum.splits)

lemma score_hex_hit:
  assumes "score_hex ei h = Inr x" and "hint \<in> set (entryHints h)"
    and "w \<in> set ei" and "w \<in> set (tokenize hint)"
  shows "(\<exists>r. x = Some r \<and> qr_hex r = h \<and> hint \<in> set (matchedHints r) \<and> 1 \<le> score r)
       \<and> (\<exists>eh. expandWithSynonyms (tokenize hint) = Inr eh \<and> 0 < wordOverlap ei eh)"
proof -
  from assms(1) obtain matched s1 where h1: "hint_loop ei (entryHints h) ([], 0) = Inr (matched, s1)"
    by (cases "hint_loop ei (entryHints h) ([], 0)") (auto simp: score_hex_def)
  from assms(1) h1 obtain en where h2: "expandWithSynonyms (tokenize (hex_name h)) = Inr en"
    by (cases "expandWithSynonyms (tokenize (hex_name h))") (auto simp: score_hex_def)
  from assms(1) h1 h2 obtain s3 where
    h3: "description_score ei h (s1 + of_nat (wordOverlap ei en) * (1 / 2)) = Inr s3"
    by (cases "description_score ei h (s1 + of_nat (wordOverlap ei en) * (1 / 2))")
       (auto simp: score_hex_def)
  from hint_loop_hit[OF h1 assms(2,3,4)] have hit: "hint \<in> set matched" "1 \<le> s1"
    and ov: "\<exists>eh. expandWithSynonyms (tokenize hint) = Inr eh \<and> 0 < wordOverlap ei eh"
    by auto
  have "s1 \<le> s1 + of_nat (wordOverlap ei en) * (1 / 2)" by simp
  also from h3 have "\<dots> \<le> s3" by (rule description_score_mono)
  also have "s3 \<le> tag_loop ei (hex_tags h) s3" by (rule tag_loop_mono)
  finally have "1 \<le> tag_loop ei (hex_tags h) s3" using hit(2) by simp
  with assms(1) h1 h2 h3 hit(1) have
    "\<exists>r. x = Some r \<and> qr_hex r = h \<and> hint \<in> set (matchedHints r) \<and> 1 \<le> score r"
    by (auto simp: score_hex_def Let_def)
  with ov show ?thesis by blast
qed

lemma query_loop_keeps:
  "query_loop ei hs acc = Inr rs \<Longrightarrow> set acc \<subseteq> set rs \<and> length rs \<le> length acc + length hs"
proof (induction hs arbitrary: acc)
  case Nil
  then show ?case by simp
next
  case (Cons h hs)
  from Cons.prems show ?case
  proof (cases rule: query_loop_cases)
    case skip
    from Cons.IH[OF skip(2)] show ?thesis by auto
  next
    case (push r)
    from Cons.IH[OF push(2)] show ?thesis by auto
  qed
qed

lemma query_loop_complete:
  "query_loop ei hs acc = Inr rs \<Longrightarrow> h \<in> set hs \<Longrightarrow>
   \<exists>x. score_hex ei h = Inr x \<and> (case x of None \<Rightarrow> True | Some r \<Rightarrow> r \<in> set rs)"
proof (induction hs arbitrary: acc)
  case Nil
  then show ?case by simp
next
  case (Cons h0 hs)
  from Cons.prems(1) show ?case
  proof (cases rule: query_loop_cases)
    case skip
    show ?thesis
    proof (cases "h = h0")
      case True
      with skip(1) show ?thesis by simp
    next
      case False
      with Cons.prems(2) have "h \<in> set hs" by simp
      with skip(2) show ?thesis by (rule Cons.IH)
    qed
  next
    case (push r)
    show ?thesis
    proof (cases "h = h0")
      case True
      from query_loop_keeps[OF push(2)] have "r \<in> set rs" by auto
      with push(1) True show ?thesis by simp
    next
      case False
      with Cons.prems(2) have "h \<in> set hs" by simp
      with push(2) show ?thesis by (rule Cons.IH)
    qed
  qed
qed

lemma js_slice_all: "int (length xs) \<le> l \<Longrightarrow> js_slice 0 l xs = xs"
  by (simp add: js_slice_def slice_bound_def Let_def)

lemma tokenize_button: "tokenize ''button'' = [''button'']"
  by code_simp

lemma expand_button:
  "expandWithSynonyms [''button''] =
     Inr [''button'', ''interactive'', ''form'', ''click'', ''input'', ''ui'', ''element'']"
  by code_simp


lemma query_loop_sound:
  "query_loop ei hs acc = Inr rs \<Longrightarrow> \<forall>r\<in>set acc. score_hex ei (qr_hex r) = Inr (Some r) \<Longrightarrow>
   \<forall>r\<in>set rs. score_hex ei (qr_hex r) = Inr (Some r)"
proof (induction hs arbitrary: acc)
  case Nil
  then show ?case by simp
next
  case (Cons h hs)
  from Cons.prems(1) show ?case
  proof (cases rule: query_loop_cases)
    case skip
    from skip(2) Cons.prems(2) show ?thesis by (rule Cons.IH)
  next
    case (push r)
    from push(1) have "qr_hex r = h" by (simp add: score_hex_Some)
    with push(1) Cons.prems(2) have "\<forall>x\<in>set (acc @ [r]). score_hex ei (qr_hex x) = Inr (Some x)"
      by simp
    with push(2) show ?thesis by (rule Cons.IH)
  qed
qed

text \<open>
  An inherited member of \<open>CONCEPT_MAP\<close> is not iterable: the token \<open>constructor\<close> makes
  the expansion, and with it \<open>query\<close> and the evaluation of a guard, raise.
\<close>

lemma expansion_raises_on_inherited_member:
  "expandWithSynonyms (tokenize ''class constructor'') = Inl TypeError"
  "query ex_hive ''class constructor'' None = Inl TypeError"
  "evaluateCondition
     \<lparr>cond_intent = Some ''constructor'', cond_hasData = None, cond_lacks = None,
      cond_match = None, cond_always = None\<rparr> ex_ctx = Inl TypeError"
  by code_simp+

text \<open>
  C7. Synonym expansion is symmetric on single tokens: when the expansion of \<open>a\<close>
  contains \<open>b\<close>, the expansion of \<open>b\<close> is defined and contains \<open>a\<close>. The expansion of
  \<open>button\<close> contains \<open>interactive\<close>, and it has a positive overlap with the expansion
  of every hint that has the word \<open>interactive\<close>. Every result that a query with intent
  \<open>button\<close> returns reports such a hint of its node among the matched hints; and when
  the limit does not cut the list, every node with such a hint is among the results.
\<close>

theorem synonym_expansion_symmetric:
  "(expandWithSynonyms [a] = Inr xs \<and> b \<in> set xs \<longrightarrow>
      (\<exists>ys. expandWithSynonyms [b] = Inr ys \<and> a \<in> set ys))
   \<and> expandWithSynonyms (tokenize ''button'') = Inr [''button'', ''interactive'', ''form'', ''click'', ''input'', ''ui'', ''element'']
   \<and> (''interactive'' \<in> set (tokenize hint) \<and> expandWithSynonyms (tokenize hint) = Inr eh \<longrightarrow>
      0 < wordOverlap [''button'', ''interactive'', ''form'', ''click'', ''input'', ''ui'', ''element''] eh)
   \<and> (query st ''button'' limit_opt = Inr rs \<and> r \<in> set rs
        \<and> hint \<in> set (entryHints (qr_hex r)) \<and> ''interactive'' \<in> set (tokenize hint) \<longrightarrow>
      hint \<in> set (matchedHints r))
   \<and> (query st ''button'' limit_opt = Inr rs \<and> h \<in> set (getAllHexes st)
        \<and> hint \<in> set (entryHints h) \<and> ''interactive'' \<in> set (tokenize hint)
        \<and> int (length (getAllHexes st)) \<le> (case limit_opt of None \<Rightarrow> 5 | Some l \<Rightarrow> l) \<longrightarrow>
      (\<exists>r. r \<in> set rs \<and> qr_hex r = h \<and> hint \<in> set (matchedHints r)))"
proof -
  define ei where "ei = [''button'', ''interactive'', ''form'', ''click'', ''input'', ''ui'', ''element'']"
  have ex: "expandWithSynonyms (tokenize ''button'') = Inr ei"
    by (simp add: tokenize_button expand_button ei_def)
  have w: "''interactive'' \<in> set ei" by (simp add: ei_def)
  have sym: "expandWithSynonyms [a] = Inr xs \<and> b \<in> set xs \<longrightarrow>
      (\<exists>ys. expandWithSynonyms [b] = Inr ys \<and> a \<in> set ys)"
    using expansion_symmetric by blast
  have ov: "0 < wordOverlap ei eh"
    if "''interactive'' \<in> set (tokenize hint)" "expandWithSynonyms (tokenize hint) = Inr eh"
  proof -
    from that have "''interactive'' \<in> set eh" using expandWithSynonyms_superset by blast
    with w show ?thesis by (rule wordOverlap_pos)
  qed
  have results: "\<exists>results. query_loop ei (getAllHexes st) [] = Inr results
      \<and> rs = js_slice 0 (case limit_opt of None \<Rightarrow> 5 | Some l \<Rightarrow> l)
                (sort_key (\<lambda>r. - score r) results)"
    if "query st ''button'' limit_opt = Inr rs"
    using that ex by (auto simp: query_def Let_def split: sum.splits)
  have rep: "hint \<in> set (matchedHints r)"
    if ret: "query st ''button'' limit_opt = Inr rs" and r: "r \<in> set rs"
      and hint: "hint \<in> set (entryHints (qr_hex r))"
      and word: "''interactive'' \<in> set (tokenize hint)"
  proof -
    from results[OF ret] obtain results where
      loop: "query_loop ei (getAllHexes st) [] = Inr results"
      and rs: "rs = js_slice 0 (case limit_opt of None \<Rightarrow> 5 | Some l \<Rightarrow> l)
                      (sort_key (\<lambda>r. - score r) results)"
      by blast
    from r have "r \<in> set results"
      using set_js_slice[of 0 _ "sort_key (\<lambda>r. - score r) results"] by (auto simp: rs)
    moreover from loop have "\<forall>r\<in>set results. score_hex ei (qr_hex r) = Inr (Some r)"
      by (rule query_loop_sound) simp
    ultimately have "score_hex ei (qr_hex r) = Inr (Some r)" by blast
    from score_hex_hit[OF this hint w word] show ?thesis by auto
  qed
  have found: "\<exists>r. r \<in> set rs \<and> qr_hex r = h \<and> hint \<in> set (matchedHints r)"
    if ret: "query st ''button'' limit_opt = Inr rs" and mem: "h \<in> set (getAllHexes st)"
      and hint: "hint \<in> set (entryHints h)" and word: "''interactive'' \<in> set (tokenize hint)"
      and lim: "int (length (getAllHexes st)) \<le> (case limit_opt of None \<Rightarrow> 5 | Some l \<Rightarrow> l)"
  proof -
    from results[OF ret] obtain results where
      loop: "query_loop ei (getAllHexes st) [] = Inr results"
      and rs: "rs = js_slice 0 (case limit_opt of None \<Rightarrow> 5 | Some l \<Rightarrow> l)
                      (sort_key (\<lambda>r. - score r) results)"
      by blast
    from query_loop_keeps[OF loop] lim
    have "int (length results) \<le> (case limit_opt of None \<Rightarrow> 5 | Some l \<Rightarrow> l)"
      by simp
    then have "rs = sort_key (\<lambda>r. - score r) results"
      unfolding rs by (intro js_slice_all) simp
    then have set_rs: "set rs = set results" by simp
    from query_loop_complete[OF loop mem] obtain x where
      x: "score_hex ei h = Inr x" "case x of None \<Rightarrow> True | Some r \<Rightarrow> r \<in> set results"
      by blast
    from score_hex_hit[OF x(1) hint w word] x(2) set_rs show ?thesis by auto
  qed
  from sym ex ov rep found show ?thesis unfolding ei_def by blast
qed

theorem synonym_expansion_symmetric_witness:
  "expandWithSynonyms [''button''] = Inr [''button'', ''interactive'', ''form'', ''click'', ''input'', ''ui'', ''element'']
   \<and> ''interactive'' \<in> set [''button'', ''interactive'', ''form'', ''click'', ''input'', ''ui'', ''element'']
   \<and> (\<exists>ys. expandWithSynonyms [''interactive''] = Inr ys \<and> ''button'' \<in> set ys)
   \<and> ''interactive'' \<in> set (tokenize ''interactive states'')
   \<and> expandWithSynonyms (tokenize ''interactive states'') = Inr [''interactive'', ''states'', ''button'', ''form'', ''click'', ''input'', ''ui'', ''element'', ''validation'', ''field'', ''submit'']
   \<and> 0 < wordOverlap [''button'', ''interactive'', ''form'', ''click'', ''input'', ''ui'', ''element''] [''interactive'', ''states'', ''button'', ''form'', ''click'', ''input'', ''ui'', ''element'', ''validation'', ''field'', ''submit'']
   \<and> query ex_hive ''button'' None = Inr [\<lparr>qr_hex = ex_ui, score = 11, matchedHints = [''interactive states'']\<rparr>]
   \<and> \<lparr>qr_hex = ex_ui, score = 11, matchedHints = [''interactive states'']\<rparr> \<in> set [\<lparr>qr_hex = ex_ui, score = 11, matchedHints = [''interactive states'']\<rparr>]
   \<and> ex_ui \<in> set (getAllHexes ex_hive)
   \<and> ''interactive states'' \<in> set (entryHints ex_ui)
   \<and> int (length (getAllHexes ex_hive)) \<le> 5
   \<and> ''interactive states'' \<in> set (matchedHints \<lparr>qr_hex = ex_ui, score = 11, matchedHints = [''interactive states'']\<rparr>)
   \<and> (\<exists>r. r \<in> set [\<lparr>qr_hex = ex_ui, score = 11, matchedHints = [''interactive states'']\<rparr>] \<and> qr_hex r = ex_ui \<and> ''interactive states'' \<in> set (matchedHints r))"
proof -
  have a: "expandWithSynonyms [''button''] = Inr [''button'', ''interactive'', ''form'', ''click'', ''input'', ''ui'', ''element'']"
    by code_simp
  have b: "''interactive'' \<in> set [''button'', ''interactive'', ''form'', ''click'', ''input'', ''ui'', ''element'']"
    by simp
  have c: "query ex_hive ''button'' None = Inr [\<lparr>qr_hex = ex_ui, score = 11, matchedHints = [''interactive states'']\<rparr>]"
    by code_simp
  have d: "ex_ui \<in> set (getAllHexes ex_hive)"
    by (simp add: getAllHexes_def ex_hive_def)
  have e: "''interactive states'' \<in> set (entryHints ex_ui)"
    by (simp add: ex_ui_def)
  have e': "''interactive states'' \<in> set (entryHints (qr_hex \<lparr>qr_hex = ex_ui, score = 11, matchedHints = [''interactive states'']\<rparr>))"
    by (simp add: ex_ui_def)
  have f: "''interactive'' \<in> set (tokenize ''interactive states'')"
    by code_simp
  have g: "int (length (getAllHexes ex_hive)) \<le> (case (None :: int option) of None \<Rightarrow> 5 | Some l \<Rightarrow> l)"
    by (simp add: getAllHexes_def ex_hive_def)
  have h: "expandWithSynonyms (tokenize ''interactive states'') = Inr [''interactive'', ''states'', ''button'', ''form'', ''click'', ''input'', ''ui'', ''element'', ''validation'', ''field'', ''submit'']"
    by code_simp
  have i: "\<lparr>qr_hex = ex_ui, score = 11, matchedHints = [''interactive states'']\<rparr> \<in> set [\<lparr>qr_hex = ex_ui, score = 11, matchedHints = [''interactive states'']\<rparr>]" by simp
  note t = synonym_expansion_symmetric[where a = "''button''" and b = "''interactive''"
      and xs = "[''button'', ''interactive'', ''form'', ''click'', ''input'', ''ui'', ''element'']" and st = ex_hive and limit_opt = None and h = ex_ui
      and hint = "''interactive states''" and rs = "[\<lparr>qr_hex = ex_ui, score = 11, matchedHints = [''interactive states'']\<rparr>]" and r = "\<lparr>qr_hex = ex_ui, score = 11, matchedHints = [''interactive states'']\<rparr>" and eh = "[''interactive'', ''states'', ''button'', ''form'', ''click'', ''input'', ''ui'', ''element'', ''validation'', ''field'', ''submit'']"]
  from t a b have r1: "\<exists>ys. expandWithSynonyms [''interactive''] = Inr ys \<and> ''button'' \<in> set ys"
    by blast
  from t f h have r2: "0 < wordOverlap [''button'', ''interactive'', ''form'', ''click'', ''input'', ''ui'', ''element''] [''interactive'', ''states'', ''button'', ''form'', ''click'', ''input'', ''ui'', ''element'', ''validation'', ''field'', ''submit'']"
    by blast
  from t c i e' f have r3: "''interactive states'' \<in> set (matchedHints \<lparr>qr_hex = ex_ui, score = 11, matchedHints = [''interactive states'']\<rparr>)"
    by blast
  from t c d e f g have r4:
    "\<exists>r. r \<in> set [\<lparr>qr_hex = ex_ui, score = 11, matchedHints = [''interactive states'']\<rparr>] \<and> qr_hex r = ex_ui \<and> ''interactive states'' \<in> set (matchedHints r)"
    by blast
  from a b c d e f g h i r1 r2 r3 r4 show ?thesis by simp
qed

section \<open>Properties of the transform pipeline\<close>


lemma map_of_insert_index:
  "k \<notin> fst ` set es \<Longrightarrow> map_of (insert_index n k v es) = (map_of es)(k \<mapsto> v)"
proof (induction es)
  case Nil
  then show ?case by simp
next
  case (Cons e es)
  obtain k' v' where e: "e = (k', v')" by (cases e)
  from Cons.prems e have ne: "k' \<noteq> k" and notin: "k \<notin> fst ` set es" by auto
  from Cons.IH[OF notin] ne show ?case
    unfolding e by (auto simp: fun_upd_twist split: option.splits)
qed


lemma map_of_replace:
  "map_of (map (\<lambda>(k', v'). if k' = k then (k', v) else (k', v')) es) =
     (if k \<in> fst ` set es then (map_of es)(k \<mapsto> v) else map_of es)"
  by (induction es) (auto simp: fun_upd_twist)


lemma map_of_snoc:
  "k \<notin> fst ` set es \<Longrightarrow> map_of (es @ [(k, v)]) = (map_of es)(k \<mapsto> v)"
  by (induction es) (auto simp: fun_upd_twist)

lemma map_of_obj_set: "map_of (obj_set k v es) = (map_of es)(k \<mapsto> v)"
  by (auto simp: obj_set_def map_of_replace map_of_insert_index map_of_snoc
        simp del: map_of_append split: option.splits)





lemma map_of_define_all:
  "map_of (define_all es t) = fold (\<lambda>(k, x) m. m(k \<mapsto> x)) es (map_of t)"
  unfolding define_all_def by (induction es arbitrary: t) (auto simp: map_of_obj_set)


lemma fold_upd_distinct:
  "distinct (map fst es) \<Longrightarrow> fold (\<lambda>(k, x) m. m(k \<mapsto> x)) es m = m ++ map_of es"
proof (induction es arbitrary: m)
  case Nil
  then show ?case by simp
next
  case (Cons e es)
  obtain k v where e: "e = (k, v)" by (cases e)
  from Cons.prems e have d: "distinct (map fst es)" and k: "k \<notin> fst ` set es" by auto
  from k have none: "map_of es k = None" by (simp add: map_of_eq_None_iff)
  have step: "m(k \<mapsto> v) ++ map_of es = m ++ map_of ((k, v) # es)"
  proof (rule ext)
    fix x
    show "(m(k \<mapsto> v) ++ map_of es) x = (m ++ map_of ((k, v) # es)) x"
      using none by (cases "x = k") (simp_all add: map_add_def split: option.splits)
  qed
  have "fold (\<lambda>(k, x) m. m(k \<mapsto> x)) (e # es) m = fold (\<lambda>(k, x) m. m(k \<mapsto> x)) es (m(k \<mapsto> v))"
    unfolding e by simp
  also have "\<dots> = m(k \<mapsto> v) ++ map_of es" by (rule Cons.IH[OF d])
  also have "\<dots> = m ++ map_of (e # es)" unfolding e by (rule step)
  finally show ?case .
qed

lemma map_of_spread:
  "distinct (map fst (own_entries v)) \<Longrightarrow> map_of (spread t v) = map_of t ++ map_of (own_entries v)"
  by (simp add: spread_def map_of_define_all fold_upd_distinct)


































text \<open>
  Each part of the restriction is needed. A picked name that is inherited is copied
  from the prototype: \<open>pick: ["constructor"]\<close> on \<open>{a:1}\<close> returns the object holding the
  function \<open>Object\<close> under \<open>constructor\<close>, where the payload has no such key. A rename
  to \<open>__proto__\<close> runs the setter that \<open>Object.prototype\<close> provides: on \<open>{a:1}\<close> the
  value is dropped and the result is \<open>{}\<close>, on \<open>{a:{x:1}}\<close> the result is an empty
  object that inherits \<open>x\<close>; neither has a key \<open>__proto__\<close>.
\<close>

lemma applyTransform_inherited_examples:
  "applyTransform ex_runtime (Some (JObj [(''a'', JNum 1)]))
     \<lparr>tr_pick = Some [''constructor''], tr_omit = None, tr_inject = None, tr_rename = None\<rparr>
   = Inr (Some (Built [(''constructor'', VBuiltin (Builtin ''Object''))]
                  (PBuiltin ObjectPrototype)))"
  "applyTransform ex_runtime (Some (JObj [(''a'', JNum 1)]))
     \<lparr>tr_pick = None, tr_omit = None, tr_inject = None,
      tr_rename = Some [(''a'', ''__proto__'')]\<rparr>
   = Inr (Some (Built [] (PBuiltin ObjectPrototype)))"
  "applyTransform ex_runtime (Some (JObj [(''a'', JObj [(''x'', JNum 1)])]))
     \<lparr>tr_pick = None, tr_omit = None, tr_inject = None,
      tr_rename = Some [(''a'', ''__proto__'')]\<rparr>
   = Inr (Some (Built [] (PJson (JObj [(''x'', JNum 1)]))))"
  by code_simp+

section \<open>Properties of deposit and of the journey log\<close>

text \<open>
  Where the merge of \<open>deposit\<close> does what the specification says: two sequences are
  concatenated, existing first; two objects are merged, incoming keys overwriting; a
  value deposited on data that is absent or primitive, and a primitive or absent value
  deposited on anything, replace the data.
\<close>

lemma merge_data_policy:
  "merge_data (Some (JArr xs)) (Some (JArr ys)) = Some (JArr (xs @ ys))"
  "distinct (map fst es) \<Longrightarrow> distinct (map fst ds) \<Longrightarrow>
     \<exists>res. merge_data (Some (JObj es)) (Some (JObj ds)) = Some (JObj res)
           \<and> map_of res = map_of es ++ map_of ds"
  "\<not> typeof_object existing \<Longrightarrow> merge_data existing d = d"
  "\<not> typeof_object d \<Longrightarrow> merge_data existing d = d"
proof -
  show "merge_data (Some (JArr xs)) (Some (JArr ys)) = Some (JArr (xs @ ys))"
    by (simp add: merge_data_def)
  show "\<not> typeof_object existing \<Longrightarrow> merge_data existing d = d"
    by (auto simp: merge_data_def split: option.splits json.splits)
  show "\<not> typeof_object d \<Longrightarrow> merge_data existing d = d"
    by (auto simp: merge_data_def split: option.splits json.splits)
  assume d: "distinct (map fst es)" "distinct (map fst ds)"
  have "map_of (spread [] (JObj es)) = map_of es"
    using d(1) by (simp add: map_of_spread)
  then have "map_of (spread (spread [] (JObj es)) (JObj ds)) = map_of es ++ map_of ds"
    using d(2) by (simp add: map_of_spread)
  then show "\<exists>res. merge_data (Some (JObj es)) (Some (JObj ds)) = Some (JObj res)
           \<and> map_of res = map_of es ++ map_of ds"
    by (simp add: merge_data_def)
qed

lemma merge_data_examples:
  "merge_data (Some (JObj [(''x'', JNum 1)])) (Some (JObj [(''y'', JNum 2)]))
     = Some (JObj [(''x'', JNum 1), (''y'', JNum 2)])"
  "merge_data (Some (JArr [JNum 1, JNum 2])) (Some (JArr [JNum 3]))
     = Some (JArr [JNum 1, JNum 2, JNum 3])"
  "merge_data (Some (JStr ''str'')) (Some (JObj [(''z'', JNum 1)]))
     = Some (JObj [(''z'', JNum 1)])"
  by code_simp+

text \<open>
  C4 fails on the code. \<open>typeof null\<close> and the \<open>typeof\<close> of a sequence are \<open>"object"\<close>,
  so \<open>null\<close> or a sequence deposited on an object takes the merging branch:
  depositing \<open>null\<close> on \<open>{x:1}\<close> leaves \<open>{x:1}\<close>, depositing \<open>[3]\<close> leaves
  \<open>{"0":3, x:1}\<close>; neither replaces the data.
\<close>

theorem deposit_null_or_sequence_onto_object:
  "data_at ex_hive ''ops'' = Some (JObj [(''x'', JNum 1)])
   \<and> fst (deposit ex_env ex_hive ''ops'' (Some JNull) None) = True
   \<and> data_at (snd (deposit ex_env ex_hive ''ops'' (Some JNull) None)) ''ops''
       = Some (JObj [(''x'', JNum 1)])
   \<and> data_at (snd (deposit ex_env ex_hive ''ops'' (Some (JArr [JNum 3])) None)) ''ops''
       = Some (JObj [(''0'', JNum 3), (''x'', JNum 1)])"
  by code_simp

text \<open>
  Where \<open>getJourneyLog\<close> does what the specification says: for a limit of at least 1 (100
  when omitted) it returns the last \<open>limit\<close> entries of the log in order, all of them
  when there are fewer, and the empty list when the file is missing or empty.
\<close>

lemma getJourneyLog_positive_limit:
  assumes "1 \<le> (case limit_opt of None \<Rightarrow> 100 | Some l \<Rightarrow> l)"
  shows "getJourneyLog st limit_opt =
     (case journeyLog st of
        None \<Rightarrow> []
      | Some steps \<Rightarrow> drop (length steps - nat (case limit_opt of None \<Rightarrow> 100 | Some l \<Rightarrow> l)) steps)"
  using assms
  by (auto simp: getJourneyLog_def js_slice_from_def slice_bound_def Let_def
           split: option.splits intro!: arg_cong2[where f = drop])

text \<open>
  C9 fails on the code for the limit 0: \<open>slice(-0)\<close> is \<open>slice(0)\<close>, the whole log, not
  its last 0 entries.
\<close>

theorem getJourneyLog_limit_zero:
  "journeyLog ex_logged = Some [ex_entry ''ops'', ex_entry ''ui'']
   \<and> getJourneyLog ex_logged (Some 1) = [ex_entry ''ui'']
   \<and> getJourneyLog ex_logged (Some 0) = [ex_entry ''ops'', ex_entry ''ui'']"
  by code_simp

end
